theory Spec2Isabelle
  imports Main
begin

section \<open>Go strings\<close>

text \<open>
  A Go string is a sequence of bytes; \<^typ>\<open>string\<close> (a list of 8-bit characters) is
  used for it. The functions below follow the definitions of package \<open>strings\<close>.
\<close>

text \<open>\<open>strings.HasPrefix(s, prefix)\<close>:
  \<^verbatim>\<open>len(s) >= len(prefix) && s[:len(prefix)] == prefix\<close>.\<close>

definition HasPrefix :: "string \<Rightarrow> string \<Rightarrow> bool" where
  "HasPrefix s pre = (length pre \<le> length s \<and> take (length pre) s = pre)"

text \<open>\<open>strings.TrimPrefix(s, prefix)\<close>: \<open>s\<close> without the leading \<open>prefix\<close>
  when it has one, \<open>s\<close> itself otherwise.\<close>

definition TrimPrefix :: "string \<Rightarrow> string \<Rightarrow> string" where
  "TrimPrefix s pre = (if HasPrefix s pre then drop (length pre) s else s)"

text \<open>
  \<open>strings.ToLower\<close>. A string of ASCII bytes only is mapped byte by byte
  (\<open>'A'..'Z'\<close> moved by \<open>'a' - 'A'\<close>). Any other string goes through
  \<open>Map(unicode.ToLower, s)\<close>, which works rune by rune from the left: a byte below
  \<open>utf8.RuneSelf\<close> is a rune of its own and is lowered as an ASCII letter; what
  \<open>Map\<close> produces from the first non-ASCII byte on depends on the Unicode tables of
  the standard library and is the parameter \<open>uni\<close>.
\<close>

definition RuneSelf :: nat where
  "RuneSelf = 128"

definition isUpperByte :: "char \<Rightarrow> bool" where
  "isUpperByte c = (65 \<le> (of_char c :: nat) \<and> (of_char c :: nat) \<le> 90)"

definition lowerByte :: "char \<Rightarrow> char" where
  "lowerByte c = (if isUpperByte c then char_of ((of_char c :: nat) + 32) else c)"

fun Map_ToLower :: "(string \<Rightarrow> string) \<Rightarrow> string \<Rightarrow> string" where
  "Map_ToLower uni [] = []"
| "Map_ToLower uni (c # cs) =
     (if (of_char c :: nat) < RuneSelf then lowerByte c # Map_ToLower uni cs
      else uni (c # cs))"

definition ToLower :: "(string \<Rightarrow> string) \<Rightarrow> string \<Rightarrow> string" where
  "ToLower uni s =
     (if list_all (\<lambda>c. (of_char c :: nat) < RuneSelf) s
      then (if list_ex isUpperByte s then map lowerByte s else s)
      else Map_ToLower uni s)"

section \<open>Errors\<close>

text \<open>
  Every error value the package creates or passes on. The three package variables
  \<open>errCred\<close>, \<open>errBadFile\<close> and \<open>errCredCSV\<close> are compared by identity in the
  source; each is a constructor of its own. Errors of the libraries carry the
  library's message. \<open>fmt.Errorf\<close> wrappers keep what they wrap.
\<close>

datatype error =
    ErrCred
  | ErrBadFile
  | ErrCredCSV
  | ErrNotCSV
  | ErrCSVReader string
  | ErrRegion
  | ErrSession string
  | ErrLoadConfig string
  | ErrCredentialPathKMSSet
  | ErrWithKMSKMSSet
  | ErrInvalidContextName nat
  | ErrContextNameSet
  | ErrV2KMSSet
  | ErrTimeoutSet
  | ErrLoadOptionsSet
  | ErrKMSOptionsSet
  | ErrFailedSettingOption error
  | ErrBadURIPrefix string string
  | ErrUnsupportedKeyURI string string
  | ErrBuildingAEAD error

section \<open>Region extraction\<close>

text \<open>
  \<open>getRegion\<close> searches the key URI for the regular expression
  \<^verbatim>\<open>aws-kms://arn:(aws[a-zA-Z0-9-_]*):kms:([a-z0-9-]+):\<close>
  with \<open>FindStringSubmatch\<close>: the leftmost match, repetitions greedy, the result being
  the whole match followed by the two groups, or the empty slice when nothing matches.
  The search is not anchored. Neither character class contains \<open>':'\<close>, so at a given
  start the greedy repetition takes the longest run of class characters and the next
  literal has to follow it.
\<close>

definition partitionChar :: "char \<Rightarrow> bool" where
  "partitionChar c = (c \<in> set ''abcdefghijklmnopqrstuvwxyzABCDEFGHIJKLMNOPQRSTUVWXYZ0123456789-_'')"

definition regionChar :: "char \<Rightarrow> bool" where
  "regionChar c = (c \<in> set ''abcdefghijklmnopqrstuvwxyz0123456789-'')"

fun literal :: "string \<Rightarrow> string \<Rightarrow> string option" where
  "literal [] s = Some s"
| "literal (c # cs) [] = None"
| "literal (c # cs) (d # ds) = (if c = d then literal cs ds else None)"

definition matchHere :: "string \<Rightarrow> string list option" where
  "matchHere s =
     (case literal ''aws-kms://arn:aws'' s of
        None \<Rightarrow> None
      | Some s1 \<Rightarrow>
          (case literal '':kms:'' (dropWhile partitionChar s1) of
             None \<Rightarrow> None
           | Some s2 \<Rightarrow>
               (if takeWhile regionChar s2 = [] then None
                else (case literal '':'' (dropWhile regionChar s2) of
                        None \<Rightarrow> None
                      | Some s3 \<Rightarrow>
                          Some [''aws-kms://arn:aws'' @ takeWhile partitionChar s1 @ '':kms:''
                                  @ takeWhile regionChar s2 @ '':'',
                                ''aws'' @ takeWhile partitionChar s1,
                                takeWhile regionChar s2]))))"

fun FindStringSubmatch :: "string \<Rightarrow> string list" where
  "FindStringSubmatch [] = (case matchHere [] of Some r \<Rightarrow> r | None \<Rightarrow> [])"
| "FindStringSubmatch (c # cs) =
     (case matchHere (c # cs) of Some r \<Rightarrow> r | None \<Rightarrow> FindStringSubmatch cs)"

text \<open>The pattern is a constant that compiles, so the error branch of
  \<open>regexp.Compile\<close> is never taken.\<close>

definition getRegion :: "string \<Rightarrow> error + string" where
  "getRegion keyURI =
     (let r = FindStringSubmatch keyURI
      in if length r \<noteq> 3 then Inl ErrRegion else Inr (r ! 2))"

text \<open>The grammar of the pattern, written out: a match starting at the front of \<open>s\<close>
  with partition suffix \<open>p\<close> and region \<open>r\<close>.\<close>

definition grammarAt :: "string \<Rightarrow> string \<Rightarrow> string \<Rightarrow> bool" where
  "grammarAt s p r =
     (list_all partitionChar p \<and> list_all regionChar r \<and> r \<noteq> [] \<and>
      HasPrefix s (''aws-kms://arn:aws'' @ p @ '':kms:'' @ r @ '':''))"

section \<open>The environment\<close>

text \<open>
  What the package reads from outside itself: the file system (\<open>os.Open\<close>, giving the
  bytes of the file when it can be opened), the reader of package \<open>encoding/csv\<close>
  (\<open>ReadAll\<close>, giving the records or the reader's error), the AWS SDK's
  \<open>session.NewSession\<close> (which may fail), \<open>config.LoadDefaultConfig\<close> of the newer SDK
  (called with a time budget and the load options) and the Unicode part of
  \<open>strings.ToLower\<close>. Functional options and loaded configurations of the SDK are opaque
  values; natural numbers stand for them.
\<close>

datatype credentials =
    StaticCredentials string string
  | SharedCredentials string string

record credentials_Value =
  AccessKeyID :: string
  SecretAccessKey :: string

record aws_Config =
  Credentials :: "credentials option"
  Region :: string

datatype session = Session aws_Config

text \<open>A legacy handle (\<open>kmsiface.KMSAPI\<close>) is either the SDK's client made by
  \<open>kms.New\<close> from a session or some other implementation of the caller's; a newer
  handle (\<open>V2KMS\<close>) is either made by \<open>kmsv2.NewFromConfig\<close> from a loaded
  configuration and the handle options or the caller's own.\<close>

datatype kmsapi = KMS_New session | CustomKMS nat

datatype v2kms = KMSV2_NewFromConfig nat "nat list" | CustomV2KMS nat

record env =
  os_Open :: "string \<Rightarrow> string option"
  csv_ReadAll :: "string \<Rightarrow> string + string list list"
  session_NewSession_error :: "aws_Config \<Rightarrow> string option"
  config_LoadDefaultConfig :: "int \<Rightarrow> nat list \<Rightarrow> string + nat"
  unicode_ToLower :: "string \<Rightarrow> string"

definition NewSession :: "env \<Rightarrow> aws_Config \<Rightarrow> error + session" where
  "NewSession E cfg =
     (case session_NewSession_error E cfg of
        Some msg \<Rightarrow> Inl (ErrSession msg)
      | None \<Rightarrow> Inr (Session cfg))"

section \<open>Credential resolution\<close>

definition extractCredsCSV :: "env \<Rightarrow> string \<Rightarrow> error + credentials_Value" where
  "extractCredsCSV E file =
     (case os_Open E file of
        None \<Rightarrow> Inl ErrBadFile
      | Some f \<Rightarrow>
          (case csv_ReadAll E f of
             Inl msg \<Rightarrow> Inl (ErrCSVReader msg)
           | Inr lines \<Rightarrow>
               (if length lines > 0 \<and> length (lines ! 0) = 1 then Inl ErrNotCSV
                else if length lines < 2 then Inl ErrCredCSV
                else if length (lines ! 1) < 4 then Inl ErrCredCSV
                else Inr \<lparr>AccessKeyID = lines ! 1 ! 2, SecretAccessKey = lines ! 1 ! 3\<rparr>)))"

text \<open>The \<open>switch\<close> of \<open>getKMSFromCredentialPath\<close> on the error of
  \<open>extractCredsCSV\<close>: it chooses the credentials the session is made with, or returns
  the error.\<close>

definition credentialPathCredentials :: "env \<Rightarrow> string \<Rightarrow> error + credentials" where
  "credentialPathCredentials E credentialPath =
     (case extractCredsCSV E credentialPath of
        Inr c \<Rightarrow> Inr (StaticCredentials (AccessKeyID c) (SecretAccessKey c))
      | Inl err \<Rightarrow>
          (if err = ErrBadFile \<or> err = ErrCredCSV then Inl err
           else Inr (SharedCredentials credentialPath ''default'')))"

definition getKMSFromCredentialPath :: "env \<Rightarrow> string \<Rightarrow> string \<Rightarrow> error + kmsapi" where
  "getKMSFromCredentialPath E uriPrefix credentialPath =
     (case getRegion uriPrefix of
        Inl err \<Rightarrow> Inl err
      | Inr r \<Rightarrow>
          (if length credentialPath = 0 then Inl ErrCred
           else (case credentialPathCredentials E credentialPath of
                   Inl err \<Rightarrow> Inl err
                 | Inr creds \<Rightarrow>
                     (case NewSession E \<lparr>Credentials = Some creds, Region = r\<rparr> of
                        Inl err \<Rightarrow> Inl err
                      | Inr s \<Rightarrow> Inr (KMS_New s)))))"

definition getKMS :: "env \<Rightarrow> string \<Rightarrow> error + kmsapi" where
  "getKMS E uriPrefix =
     (case getRegion uriPrefix of
        Inl err \<Rightarrow> Inl err
      | Inr r \<Rightarrow>
          (case NewSession E \<lparr>Credentials = None, Region = r\<rparr> of
             Inl err \<Rightarrow> Inl err
           | Inr s \<Rightarrow> Inr (KMS_New s)))"

section \<open>The client descriptor and its options\<close>

definition awsPrefix :: string where
  "awsPrefix = ''aws-kms://''"

text \<open>\<open>5 * time.Second\<close>, in nanoseconds.\<close>

definition defaultTimeout :: int where
  "defaultTimeout = 5000000000"

text \<open>\<open>EncryptionContextName\<close> is an unsigned integer; the two named values start
  at \<open>1 + iota\<close>, and 0 is the unset field.\<close>

definition AssociatedData :: nat where
  "AssociatedData = 1"

definition LegacyAdditionalData :: nat where
  "LegacyAdditionalData = 2"

definition encryptionContextNames :: "nat \<rightharpoonup> string" where
  "encryptionContextNames =
     [AssociatedData \<mapsto> ''associatedData'', LegacyAdditionalData \<mapsto> ''additionalData'']"

definition valid :: "nat \<Rightarrow> bool" where
  "valid n = (encryptionContextNames n \<noteq> None)"

record v2Client =
  v2_kms :: "v2kms option"
  kmsOpts :: "nat list"
  loadOpts :: "nat list"
  timeout :: int

text \<open>The \<open>builder\<close> field holds a closure. The default closure works on the
  descriptor itself (it reads and fills the descriptor's \<open>kms\<close>); the closure of the
  newer generation is the method \<open>BuildAead\<close> bound to a \<open>v2Client\<close> of its own,
  whose state it keeps between calls.\<close>

datatype builder = LegacyBuilder | V2Builder v2Client

record awsClient =
  keyURIPrefix :: string
  kms :: "kmsapi option"
  encryptionContextName :: nat
  builder :: builder

datatype V2ClientOption =
    WithV2KMS "v2kms option"
  | WithAPITimeout int
  | WithLoadOptions "nat list"
  | WithKMSOptions "nat list"

datatype ClientOption =
    WithCredentialPath string
  | WithKMS "kmsapi option"
  | WithEncryptionContextName nat
  | UseV2
  | WithV2KMSOptions "V2ClientOption list"

fun V2ClientOption_set :: "V2ClientOption \<Rightarrow> v2Client \<Rightarrow> error + v2Client" where
  "V2ClientOption_set (WithV2KMS k) v =
     (if v2_kms v \<noteq> None then Inl ErrV2KMSSet else Inr (v\<lparr>v2_kms := k\<rparr>))"
| "V2ClientOption_set (WithAPITimeout t) v =
     (if timeout v \<noteq> 0 then Inl ErrTimeoutSet else Inr (v\<lparr>timeout := t\<rparr>))"
| "V2ClientOption_set (WithLoadOptions opts) v =
     (if length (loadOpts v) > 0 then Inl ErrLoadOptionsSet else Inr (v\<lparr>loadOpts := opts\<rparr>))"
| "V2ClientOption_set (WithKMSOptions opts) v =
     (if length (kmsOpts v) > 0 then Inl ErrKMSOptionsSet else Inr (v\<lparr>kmsOpts := opts\<rparr>))"

text \<open>The loop of \<open>WithV2KMSOptions\<close> over its options.\<close>

fun V2ClientOptions_set :: "V2ClientOption list \<Rightarrow> v2Client \<Rightarrow> error + v2Client" where
  "V2ClientOptions_set [] v = Inr v"
| "V2ClientOptions_set (opt # opts) v =
     (case V2ClientOption_set opt v of
        Inl err \<Rightarrow> Inl (ErrFailedSettingOption err)
      | Inr v' \<Rightarrow> V2ClientOptions_set opts v')"

definition new_v2Client :: v2Client where
  "new_v2Client = \<lparr>v2_kms = None, kmsOpts = [], loadOpts = [], timeout = 0\<rparr>"

fun ClientOption_set :: "env \<Rightarrow> ClientOption \<Rightarrow> awsClient \<Rightarrow> error + awsClient" where
  "ClientOption_set E (WithCredentialPath credentialPath) a =
     (if kms a \<noteq> None then Inl ErrCredentialPathKMSSet
      else (case getKMSFromCredentialPath E (keyURIPrefix a) credentialPath of
              Inl err \<Rightarrow> Inl err
            | Inr k \<Rightarrow> Inr (a\<lparr>kms := Some k\<rparr>)))"
| "ClientOption_set E (WithKMS k) a =
     (if kms a \<noteq> None then Inl ErrWithKMSKMSSet else Inr (a\<lparr>kms := k\<rparr>))"
| "ClientOption_set E (WithEncryptionContextName name) a =
     (if \<not> valid name then Inl (ErrInvalidContextName name)
      else if encryptionContextName a \<noteq> 0 then Inl ErrContextNameSet
      else Inr (a\<lparr>encryptionContextName := name\<rparr>))"
| "ClientOption_set E UseV2 a = Inr (a\<lparr>builder := V2Builder new_v2Client\<rparr>)"
| "ClientOption_set E (WithV2KMSOptions opts) a =
     (case V2ClientOptions_set opts new_v2Client of
        Inl err \<Rightarrow> Inl err
      | Inr v \<Rightarrow> Inr (a\<lparr>builder := V2Builder v\<rparr>))"

text \<open>The loop of \<open>NewClientWithOptions\<close> over its options.\<close>

fun ClientOptions_set :: "env \<Rightarrow> ClientOption list \<Rightarrow> awsClient \<Rightarrow> error + awsClient" where
  "ClientOptions_set E [] a = Inr a"
| "ClientOptions_set E (opt # opts) a =
     (case ClientOption_set E opt a of
        Inl err \<Rightarrow> Inl (ErrFailedSettingOption err)
      | Inr a' \<Rightarrow> ClientOptions_set E opts a')"

text \<open>The descriptor \<open>NewClientWithOptions\<close> starts from: the prefix, no handle, no
  context field name, the default closure.\<close>

definition new_awsClient :: "string \<Rightarrow> awsClient" where
  "new_awsClient uriPrefix =
     \<lparr>keyURIPrefix = uriPrefix, kms = None, encryptionContextName = 0, builder = LegacyBuilder\<rparr>"

definition NewClientWithOptions :: "env \<Rightarrow> string \<Rightarrow> ClientOption list \<Rightarrow> error + awsClient" where
  "NewClientWithOptions E uriPrefix opts =
     (if \<not> HasPrefix (ToLower (unicode_ToLower E) uriPrefix) awsPrefix
      then Inl (ErrBadURIPrefix awsPrefix uriPrefix)
      else (case ClientOptions_set E opts (new_awsClient uriPrefix) of
              Inl err \<Rightarrow> Inl err
            | Inr a \<Rightarrow>
                Inr (if encryptionContextName a = 0
                     then a\<lparr>encryptionContextName := AssociatedData\<rparr> else a)))"

section \<open>The key client\<close>

text \<open>Modelled from the spec: the constructors \<open>newAWSAEAD\<close> and \<open>newAWSV2AEAD\<close>
  of the adapter are not among the sources. By the spec the adapter is bound to the
  handle, the resource path and the context field name (and, for the newer generation,
  the time budget) it is made from; it is the record of its arguments.\<close>

datatype aead =
    AWSAEAD string kmsapi nat
  | AWSV2AEAD string v2kms nat int

definition newAWSAEAD :: "string \<Rightarrow> kmsapi \<Rightarrow> nat \<Rightarrow> aead" where
  "newAWSAEAD keyURI k encContextName = AWSAEAD keyURI k encContextName"

definition newAWSV2AEAD :: "string \<Rightarrow> v2kms \<Rightarrow> nat \<Rightarrow> int \<Rightarrow> aead" where
  "newAWSV2AEAD keyURI k encContextName t = AWSV2AEAD keyURI k encContextName t"

definition Supported :: "awsClient \<Rightarrow> string \<Rightarrow> bool" where
  "Supported c keyURI = HasPrefix keyURI (keyURIPrefix c)"

text \<open>\<open>BuildAead\<close> of the newer generation. It returns the adapter or the error
  together with the \<open>v2Client\<close> as the call leaves it. \<open>kmsv2.NewFromConfig\<close> has no
  error; the check after it in the source tests a constant \<open>nil\<close>.\<close>

definition BuildAead :: "env \<Rightarrow> v2Client \<Rightarrow> string \<Rightarrow> nat \<Rightarrow> (error + aead) \<times> v2Client" where
  "BuildAead E v0 keyURI encContextName =
     (let v = (if timeout v0 = 0 then v0\<lparr>timeout := defaultTimeout\<rparr> else v0)
      in case v2_kms v of
           None \<Rightarrow>
             (case config_LoadDefaultConfig E (timeout v) (loadOpts v) of
                Inl msg \<Rightarrow> (Inl (ErrLoadConfig msg), v)
              | Inr cfg \<Rightarrow>
                  (let kmsClient = KMSV2_NewFromConfig cfg (kmsOpts v)
                   in (Inr (newAWSV2AEAD keyURI kmsClient encContextName (timeout v)),
                       v\<lparr>v2_kms := Some kmsClient\<rparr>)))
         | Some k \<Rightarrow> (Inr (newAWSV2AEAD keyURI k encContextName (timeout v)), v))"

text \<open>The default closure of \<open>NewClientWithOptions\<close>, working on the descriptor.\<close>

definition legacyBuilder :: "env \<Rightarrow> awsClient \<Rightarrow> string \<Rightarrow> nat \<Rightarrow> (error + aead) \<times> awsClient" where
  "legacyBuilder E a keyURI encContextName =
     (case kms a of
        None \<Rightarrow>
          (case getKMS E (keyURIPrefix a) of
             Inl err \<Rightarrow> (Inl err, a)
           | Inr k \<Rightarrow> (Inr (newAWSAEAD keyURI k encContextName), a\<lparr>kms := Some k\<rparr>))
      | Some k \<Rightarrow> (Inr (newAWSAEAD keyURI k encContextName), a))"

text \<open>Calling the closure in the \<open>builder\<close> field.\<close>

definition call_builder :: "env \<Rightarrow> awsClient \<Rightarrow> string \<Rightarrow> nat \<Rightarrow> (error + aead) \<times> awsClient" where
  "call_builder E c uri encContextName =
     (case builder c of
        LegacyBuilder \<Rightarrow> legacyBuilder E c uri encContextName
      | V2Builder v \<Rightarrow>
          (case BuildAead E v uri encContextName of
             (res, v') \<Rightarrow> (res, c\<lparr>builder := V2Builder v'\<rparr>)))"

definition GetAEAD :: "env \<Rightarrow> awsClient \<Rightarrow> string \<Rightarrow> (error + aead) \<times> awsClient" where
  "GetAEAD E c keyURI =
     (if \<not> Supported c keyURI
      then (Inl (ErrUnsupportedKeyURI (keyURIPrefix c) keyURI), c)
      else (let uri = TrimPrefix keyURI awsPrefix
            in case call_builder E c uri (encryptionContextName c) of
                 (Inl err, c') \<Rightarrow> (Inl (ErrBuildingAEAD err), c')
               | (Inr aead, c') \<Rightarrow> (Inr aead, c')))"

section \<open>Notions used in the statements\<close>


text \<open>The handle an adapter is bound to, and the handle the closure in the
  \<open>builder\<close> field works with: the descriptor's \<open>kms\<close> for the default closure, the
  \<open>kms\<close> of its own \<open>v2Client\<close> for the newer one.\<close>

fun aead_handle :: "aead \<Rightarrow> kmsapi + v2kms" where
  "aead_handle (AWSAEAD keyURI k n) = Inl k"
| "aead_handle (AWSV2AEAD keyURI k n t) = Inr k"

fun aead_keyURI :: "aead \<Rightarrow> string" where
  "aead_keyURI (AWSAEAD keyURI k n) = keyURI"
| "aead_keyURI (AWSV2AEAD keyURI k n t) = keyURI"

fun aead_contextName :: "aead \<Rightarrow> nat" where
  "aead_contextName (AWSAEAD keyURI k n) = n"
| "aead_contextName (AWSV2AEAD keyURI k n t) = n"

definition activeHandle :: "awsClient \<Rightarrow> (kmsapi + v2kms) option" where
  "activeHandle c =
     (case builder c of
        LegacyBuilder \<Rightarrow> map_option Inl (kms c)
      | V2Builder v \<Rightarrow> map_option Inr (v2_kms v))"

text \<open>The time budget \<open>BuildAead\<close> works with: the default when none was set.\<close>

definition effectiveTimeout :: "v2Client \<Rightarrow> int" where
  "effectiveTimeout v = (if timeout v = 0 then defaultTimeout else timeout v)"

text \<open>The options that supply the legacy handle: \<open>WithCredentialPath\<close>, and
  \<open>WithKMS\<close> with a handle (\<open>WithKMS(nil)\<close> supplies none).\<close>

fun suppliesKMS :: "ClientOption \<Rightarrow> bool" where
  "suppliesKMS (WithCredentialPath credentialPath) = True"
| "suppliesKMS (WithKMS k) = (k \<noteq> None)"
| "suppliesKMS opt = False"

fun isContextNameOption :: "ClientOption \<Rightarrow> bool" where
  "isContextNameOption (WithEncryptionContextName n) = True"
| "isContextNameOption opt = False"

text \<open>A spelling of the scheme in some letter case: ten bytes that lower to
  \<open>aws-kms://\<close>.\<close>

definition schemeSpelling :: "string \<Rightarrow> bool" where
  "schemeSpelling sch = (map lowerByte sch = awsPrefix)"

section \<open>Calls that overlap\<close>






section \<open>A concrete environment\<close>

text \<open>
  An environment for evaluating the definitions on concrete inputs: four credential
  files (the CSV file of the IAM console, an INI file, a CSV file with too few columns
  and a file the CSV reader rejects), every session and configuration load succeeding.
\<close>

definition testCSV :: "string list list" where
  "testCSV =
     [[''User name'', ''Password'', ''Access key ID'', ''Secret access key'', ''Console login link''],
      [''tink'', ''pw'', ''AKIAEXAMPLE'', ''SECRETEXAMPLE'', ''https://example'']]"

definition testINI :: "string list list" where
  "testINI = [[''[default]''], [''aws_access_key_id = AKIAEXAMPLE''],
              [''aws_secret_access_key = SECRETEXAMPLE'']]"

definition testBadCSV :: "string list list" where
  "testBadCSV = [[''User name'', ''Access key ID''], [''tink'', ''AKIAEXAMPLE'']]"

definition testEnv :: env where
  "testEnv =
     \<lparr>os_Open = (\<lambda>file. if file \<in> set [''credentials.csv'', ''credentials.cred'',
                                        ''access_keys_bad.csv'', ''quoted.csv'']
                        then Some file else None),
      csv_ReadAll = (\<lambda>f. if f = ''credentials.csv'' then Inr testCSV
                          else if f = ''credentials.cred'' then Inr testINI
                          else if f = ''access_keys_bad.csv'' then Inr testBadCSV
                          else Inl ''bare quote in non-quoted field''),
      session_NewSession_error = (\<lambda>cfg. None),
      config_LoadDefaultConfig = (\<lambda>t opts. Inr 0),
      unicode_ToLower = (\<lambda>s. s)\<rparr>"


section \<open>Facts about strings and the pattern\<close>

lemma literal_Some: "literal l s = Some t \<longleftrightarrow> s = l @ t"
  by (induction l s rule: literal.induct) auto

lemma literal_None: "literal l s = None \<longleftrightarrow> \<not> (\<exists>t. s = l @ t)"
  by (induction l s rule: literal.induct) auto

lemma colon_classes: "\<not> partitionChar CHR '':''" "\<not> regionChar CHR '':''"
  by (simp_all add: partitionChar_def regionChar_def)

lemma HasPrefix_append: "HasPrefix s pre \<longleftrightarrow> (\<exists>t. s = pre @ t)"
  unfolding HasPrefix_def
  by (metis append_eq_conv_conj append_take_drop_id length_append le_add1)

lemma run_then_colon:
  assumes "list_all P xs" "\<not> P CHR '':''"
  shows "takeWhile P (xs @ CHR '':'' # t) = xs" "dropWhile P (xs @ CHR '':'' # t) = CHR '':'' # t"
  using assms by (induction xs) auto

lemma matchHere_complete:
  assumes "grammarAt s p r"
  shows "matchHere s = Some [''aws-kms://arn:aws'' @ p @ '':kms:'' @ r @ '':'', ''aws'' @ p, r]"
proof -
  from assms obtain t where s: "s = ''aws-kms://arn:aws'' @ p @ '':kms:'' @ r @ '':'' @ t"
    and p: "list_all partitionChar p" and r: "list_all regionChar r" and ne: "r \<noteq> []"
    unfolding grammarAt_def HasPrefix_append by auto
  have l1: "literal ''aws-kms://arn:aws'' s = Some (p @ CHR '':'' # (''kms:'' @ r @ '':'' @ t))"
    unfolding literal_Some s by simp
  have l2: "literal '':kms:'' (CHR '':'' # (''kms:'' @ r @ '':'' @ t)) = Some (r @ CHR '':'' # t)"
    unfolding literal_Some by simp
  have l3: "literal '':'' (CHR '':'' # t) = Some t"
    unfolding literal_Some by simp
  show ?thesis
    unfolding matchHere_def l1 option.case
      run_then_colon[OF p colon_classes(1)] l2 run_then_colon[OF r colon_classes(2)] l3
    using ne by simp
qed

lemma matchHere_sound:
  assumes "matchHere s = Some m"
  shows "\<exists>p r. grammarAt s p r \<and> m = [''aws-kms://arn:aws'' @ p @ '':kms:'' @ r @ '':'', ''aws'' @ p, r]"
proof -
  from assms obtain s1 s2 s3 where
    l1: "literal ''aws-kms://arn:aws'' s = Some s1" and
    l2: "literal '':kms:'' (dropWhile partitionChar s1) = Some s2" and
    ne: "takeWhile regionChar s2 \<noteq> []" and
    l3: "literal '':'' (dropWhile regionChar s2) = Some s3" and
    m: "m = [''aws-kms://arn:aws'' @ takeWhile partitionChar s1 @ '':kms:'' @ takeWhile regionChar s2 @ '':'',
             ''aws'' @ takeWhile partitionChar s1, takeWhile regionChar s2]"
    unfolding matchHere_def by (auto split: option.splits if_splits)
  let ?p = "takeWhile partitionChar s1" and ?r = "takeWhile regionChar s2"
  have "s = ''aws-kms://arn:aws'' @ s1" using l1 unfolding literal_Some .
  moreover have "s1 = ?p @ dropWhile partitionChar s1" by simp
  moreover have "dropWhile partitionChar s1 = '':kms:'' @ s2" using l2 unfolding literal_Some .
  moreover have "s2 = ?r @ dropWhile regionChar s2" by simp
  moreover have "dropWhile regionChar s2 = '':'' @ s3" using l3 unfolding literal_Some .
  ultimately have "s = ''aws-kms://arn:aws'' @ ?p @ '':kms:'' @ ?r @ '':'' @ s3"
    by (metis append.assoc)
  then have "HasPrefix s (''aws-kms://arn:aws'' @ ?p @ '':kms:'' @ ?r @ '':'')"
    unfolding HasPrefix_append by (metis append.assoc)
  moreover have "list_all partitionChar ?p" "list_all regionChar ?r"
    by (simp_all add: list_all_iff) (meson set_takeWhileD)+
  ultimately show ?thesis using ne m unfolding grammarAt_def by blast
qed

lemma matchHere_None: "matchHere s = None \<longleftrightarrow> \<not> (\<exists>p r. grammarAt s p r)"
  using matchHere_complete matchHere_sound by (metis not_Some_eq option.distinct(1))

lemma matchHere_length: "matchHere s = Some m \<Longrightarrow> length m = 3 \<and> m \<noteq> []"
  using matchHere_sound by fastforce


lemma FSS_leftmost:
  "FindStringSubmatch u = m \<Longrightarrow> m \<noteq> [] \<Longrightarrow>
   \<exists>pre s. u = pre @ s \<and> matchHere s = Some m \<and>
     (\<forall>pre' s'. u = pre' @ s' \<and> length pre' < length pre \<longrightarrow> matchHere s' = None)"
proof (induction u)
  case Nil
  then show ?case by (auto split: option.splits)
next
  case (Cons c cs)
  show ?case
  proof (cases "matchHere (c # cs)")
    case (Some r)
    with Cons.prems have "matchHere (c # cs) = Some m" by simp
    then have "c # cs = [] @ (c # cs) \<and> matchHere (c # cs) = Some m \<and>
      (\<forall>pre' s'. c # cs = pre' @ s' \<and> length pre' < length ([]::string) \<longrightarrow> matchHere s' = None)"
      by simp
    then show ?thesis by blast
  next
    case None
    with Cons.prems have "FindStringSubmatch cs = m" by simp
    from Cons.IH[OF this Cons.prems(2)] obtain pre s where
      u: "cs = pre @ s" and m: "matchHere s = Some m" and
      lm: "\<forall>pre' s'. cs = pre' @ s' \<and> length pre' < length pre \<longrightarrow> matchHere s' = None"
      by blast
    have "\<forall>pre' s'. c # cs = pre' @ s' \<and> length pre' < length (c # pre) \<longrightarrow> matchHere s' = None"
    proof (intro allI impI)
      fix pre' s' assume a: "c # cs = pre' @ s' \<and> length pre' < length (c # pre)"
      show "matchHere s' = None"
      proof (cases pre')
        case Nil
        with a None show ?thesis by simp
      next
        case (Cons d ds)
        with a have "cs = ds @ s' \<and> length ds < length pre" by simp
        with lm show ?thesis by blast
      qed
    qed
    moreover have "c # cs = (c # pre) @ s" using u by simp
    ultimately show ?thesis using m by blast
  qed
qed

lemma FSS_Nil_iff: "FindStringSubmatch u = [] \<longleftrightarrow> (\<forall>pre s. u = pre @ s \<longrightarrow> matchHere s = None)"
proof
  assume e: "FindStringSubmatch u = []"
  show "\<forall>pre s. u = pre @ s \<longrightarrow> matchHere s = None"
    using e
  proof (induction u)
    case Nil
    then show ?case by (auto split: option.splits dest: matchHere_length)
  next
    case (Cons c cs)
    have n: "matchHere (c # cs) = None"
      using Cons.prems by (auto split: option.splits dest: matchHere_length)
    with Cons.prems have "FindStringSubmatch cs = []" by simp
    from Cons.IH[OF this] n show ?case
      by (auto simp: Cons_eq_append_conv)
  qed
next
  assume "\<forall>pre s. u = pre @ s \<longrightarrow> matchHere s = None"
  then show "FindStringSubmatch u = []"
  proof (induction u)
    case Nil
    then show ?case by simp
  next
    case (Cons c cs)
    have "matchHere (c # cs) = None" using Cons.prems by (metis append_Nil)
    moreover have "\<forall>pre s. cs = pre @ s \<longrightarrow> matchHere s = None"
      using Cons.prems by (metis append_Cons)
    ultimately show ?case using Cons.IH by simp
  qed
qed

lemma FSS_length: "FindStringSubmatch u = [] \<or> length (FindStringSubmatch u) = 3"
  using FSS_leftmost[OF refl, of u] matchHere_length by blast


lemma getRegion_Inl: "getRegion u = Inl e \<Longrightarrow> e = ErrRegion"
  unfolding getRegion_def Let_def by (auto split: if_splits)

lemma getRegion_fails_iff:
  "getRegion u = Inl ErrRegion \<longleftrightarrow> (\<forall>pre s p r. u = pre @ s \<longrightarrow> \<not> grammarAt s p r)"
proof -
  have "getRegion u = Inl ErrRegion \<longleftrightarrow> FindStringSubmatch u = []"
    unfolding getRegion_def Let_def using FSS_length[of u] by auto
  then show ?thesis unfolding FSS_Nil_iff matchHere_None by blast
qed


lemma grammarAt_arn: "grammarAt s p r \<Longrightarrow> \<exists>b. s = ''aws-kms://'' @ ''arn:'' @ b"
  unfolding grammarAt_def HasPrefix_append by auto

section \<open>Region extraction follows the grammar\<close>




section \<open>Facts about the options\<close>

lemma valid_iff: "valid n \<longleftrightarrow> n = AssociatedData \<or> n = LegacyAdditionalData"
  by (simp add: valid_def encryptionContextNames_def)


lemma isContextNameOption_iff: "isContextNameOption opt \<longleftrightarrow> (\<exists>n. opt = WithEncryptionContextName n)"
  by (cases opt) simp_all

lemma ClientOption_set_prefix:
  "ClientOption_set E opt a = Inr a' \<Longrightarrow> keyURIPrefix a' = keyURIPrefix a"
  by (cases opt) (auto split: if_splits sum.splits)

lemma ClientOption_set_kms_kept:
  "ClientOption_set E opt a = Inr a' \<Longrightarrow> kms a = Some k \<Longrightarrow> kms a' = Some k"
  by (cases opt) (auto split: if_splits sum.splits)


lemma ClientOption_set_name_other:
  "ClientOption_set E opt a = Inr a' \<Longrightarrow> \<not> isContextNameOption opt \<Longrightarrow>
   encryptionContextName a' = encryptionContextName a"
  by (cases opt) (auto split: if_splits sum.splits)

lemma ClientOption_set_name_valid:
  "ClientOption_set E opt a = Inr a' \<Longrightarrow>
   encryptionContextName a = 0 \<or> valid (encryptionContextName a) \<Longrightarrow>
   encryptionContextName a' = 0 \<or> valid (encryptionContextName a')"
  by (cases opt) (auto split: if_splits sum.splits)

lemma suppliesKMS_sets:
  "suppliesKMS opt \<Longrightarrow> ClientOption_set E opt a = Inr a' \<Longrightarrow> kms a = None \<and> kms a' \<noteq> None"
  by (cases opt) (auto split: if_splits sum.splits)

lemma suppliesKMS_refused:
  "suppliesKMS opt \<Longrightarrow> kms a \<noteq> None \<Longrightarrow> isl (ClientOption_set E opt a)"
  by (cases opt) auto



lemma ClientOptions_set_append:
  "ClientOptions_set E (xs @ ys) a =
     (case ClientOptions_set E xs a of Inl err \<Rightarrow> Inl err | Inr a' \<Rightarrow> ClientOptions_set E ys a')"
  by (induction xs arbitrary: a) (auto split: sum.splits)

lemma ClientOptions_set_Cons_Inr:
  "ClientOptions_set E (opt # opts) a = Inr a' \<Longrightarrow>
   \<exists>a1. ClientOption_set E opt a = Inr a1 \<and> ClientOptions_set E opts a1 = Inr a'"
  by (cases "ClientOption_set E opt a") simp_all

lemma ClientOptions_set_prefix:
  "ClientOptions_set E opts a = Inr a' \<Longrightarrow> keyURIPrefix a' = keyURIPrefix a"
proof (induction opts arbitrary: a)
  case Nil
  then show ?case by simp
next
  case (Cons opt opts)
  from ClientOptions_set_Cons_Inr[OF Cons.prems] obtain a1 where
    1: "ClientOption_set E opt a = Inr a1" and 2: "ClientOptions_set E opts a1 = Inr a'"
    by blast
  from ClientOption_set_prefix[OF 1] Cons.IH[OF 2] show ?case by simp
qed



lemma ClientOptions_set_name_other:
  "ClientOptions_set E opts a = Inr a' \<Longrightarrow> \<not> list_ex isContextNameOption opts \<Longrightarrow>
   encryptionContextName a' = encryptionContextName a"
proof (induction opts arbitrary: a)
  case Nil
  then show ?case by simp
next
  case (Cons opt opts)
  from ClientOptions_set_Cons_Inr[OF Cons.prems(1)] obtain a1 where
    1: "ClientOption_set E opt a = Inr a1" and 2: "ClientOptions_set E opts a1 = Inr a'"
    by blast
  from Cons.prems(2) have n: "\<not> isContextNameOption opt" and r: "\<not> list_ex isContextNameOption opts"
    by simp_all
  from ClientOption_set_name_other[OF 1 n] Cons.IH[OF 2 r] show ?case by simp
qed

lemma ClientOptions_set_name_valid:
  "ClientOptions_set E opts a = Inr a' \<Longrightarrow>
   encryptionContextName a = 0 \<or> valid (encryptionContextName a) \<Longrightarrow>
   encryptionContextName a' = 0 \<or> valid (encryptionContextName a')"
proof (induction opts arbitrary: a)
  case Nil
  then show ?case by simp
next
  case (Cons opt opts)
  from ClientOptions_set_Cons_Inr[OF Cons.prems(1)] obtain a1 where
    1: "ClientOption_set E opt a = Inr a1" and 2: "ClientOptions_set E opts a1 = Inr a'"
    by blast
  from Cons.IH[OF 2 ClientOption_set_name_valid[OF 1 Cons.prems(2)]] show ?case .
qed

lemma supplier_after_kms_fails:
  "kms a \<noteq> None \<Longrightarrow> opt \<in> set opts \<Longrightarrow> suppliesKMS opt \<Longrightarrow> isl (ClientOptions_set E opts a)"
proof (induction opts arbitrary: a)
  case Nil
  then show ?case by simp
next
  case (Cons x opts)
  show ?case
  proof (cases "ClientOption_set E x a")
    case (Inl err)
    then show ?thesis by simp
  next
    case (Inr a1)
    have "x \<noteq> opt" using suppliesKMS_refused[OF Cons.prems(3) Cons.prems(1), of E] Inr by auto
    with Cons.prems(2) have m: "opt \<in> set opts" by simp
    from Cons.prems(1) obtain k where "kms a = Some k" by auto
    from ClientOption_set_kms_kept[OF Inr this] have "kms a1 \<noteq> None" by simp
    from Cons.IH[OF this m Cons.prems(3)] Inr show ?thesis by simp
  qed
qed


lemma two_suppliers_fail:
  assumes "suppliesKMS o1" "suppliesKMS o2"
  shows "isl (ClientOptions_set E (xs @ o1 # ys @ o2 # zs) a)"
proof (cases "ClientOptions_set E xs a")
  case (Inl err)
  then show ?thesis by (simp add: ClientOptions_set_append)
next
  case (Inr a1)
  show ?thesis
  proof (cases "ClientOption_set E o1 a1")
    case (Inl err)
    with Inr show ?thesis by (simp add: ClientOptions_set_append)
  next
    case (Inr a2)
    from suppliesKMS_sets[OF assms(1) Inr] have "kms a2 \<noteq> None" by simp
    from supplier_after_kms_fails[OF this _ assms(2), of "ys @ o2 # zs" E]
    have "isl (ClientOptions_set E (ys @ o2 # zs) a2)" by simp
    with \<open>ClientOptions_set E xs a = Inr a1\<close> Inr show ?thesis
      by (simp add: ClientOptions_set_append)
  qed
qed



lemma NewClientWithOptions_Inr:
  assumes "NewClientWithOptions E p opts = Inr c"
  obtains a where "HasPrefix (ToLower (unicode_ToLower E) p) awsPrefix"
    and "ClientOptions_set E opts (new_awsClient p) = Inr a"
    and "c = (if encryptionContextName a = 0 then a\<lparr>encryptionContextName := AssociatedData\<rparr> else a)"
proof -
  have P: "HasPrefix (ToLower (unicode_ToLower E) p) awsPrefix"
  proof (rule ccontr)
    assume "\<not> HasPrefix (ToLower (unicode_ToLower E) p) awsPrefix"
    then have "NewClientWithOptions E p opts = Inl (ErrBadURIPrefix awsPrefix p)"
      by (simp add: NewClientWithOptions_def)
    with assms show False by simp
  qed
  show ?thesis
  proof (cases "ClientOptions_set E opts (new_awsClient p)")
    case (Inl err)
    with P have "NewClientWithOptions E p opts = Inl err"
      by (simp add: NewClientWithOptions_def)
    with assms show ?thesis by simp
  next
    case (Inr a)
    with P have "NewClientWithOptions E p opts =
        Inr (if encryptionContextName a = 0 then a\<lparr>encryptionContextName := AssociatedData\<rparr> else a)"
      by (simp add: NewClientWithOptions_def)
    with assms have "c = (if encryptionContextName a = 0 then a\<lparr>encryptionContextName := AssociatedData\<rparr> else a)"
      by simp
    then show ?thesis by (rule that[OF P Inr])
  qed
qed

lemma NewClientWithOptions_isl:
  assumes "isl (ClientOptions_set E opts (new_awsClient p))"
  shows "isl (NewClientWithOptions E p opts)"
proof -
  from assms obtain err where "ClientOptions_set E opts (new_awsClient p) = Inl err"
    by (cases "ClientOptions_set E opts (new_awsClient p)") simp_all
  then show ?thesis by (simp add: NewClientWithOptions_def)
qed

lemma NewClientWithOptions_prefix:
  assumes "NewClientWithOptions E p opts = Inr c"
  shows "keyURIPrefix c = p"
proof -
  from assms obtain a where
    1: "ClientOptions_set E opts (new_awsClient p) = Inr a"
    and 2: "c = (if encryptionContextName a = 0 then a\<lparr>encryptionContextName := AssociatedData\<rparr> else a)"
    by (rule NewClientWithOptions_Inr)
  have "keyURIPrefix a = p" using ClientOptions_set_prefix[OF 1] by (simp add: new_awsClient_def)
  with 2 show ?thesis by (cases "encryptionContextName a = 0") simp_all
qed

section \<open>Evaluation on concrete inputs\<close>

lemmas construct_simps =
  NewClientWithOptions_def new_awsClient_def ToLower_def HasPrefix_def awsPrefix_def
  testEnv_def RuneSelf_def isUpperByte_def lowerByte_def AssociatedData_def
  LegacyAdditionalData_def valid_def encryptionContextNames_def new_v2Client_def

lemmas region_simps = getRegion_def matchHere_def partitionChar_def regionChar_def

lemmas creds_simps =
  getKMSFromCredentialPath_def credentialPathCredentials_def extractCredsCSV_def NewSession_def
  testCSV_def testINI_def testBadCSV_def

section \<open>The prefix check\<close>

text \<open>
  Claim C3. For a client built with URI prefix \<open>p\<close>, \<open>Supported\<close> holds of a key URI
  exactly when \<open>p\<close> is a literal prefix of it, byte for byte: whatever follows the
  prefix is accepted, nothing else is looked at. \<open>Supported\<close> is a function of the
  descriptor and the key URI alone; it reads nothing of the environment and returns no
  changed descriptor.
\<close>

theorem Supported_literal_prefix:
  assumes "NewClientWithOptions E p opts = Inr c"
  shows "(Supported c s \<longleftrightarrow> (\<exists>t. s = p @ t)) \<and> Supported c (p @ t)"
proof -
  have "keyURIPrefix c = p" using assms by (rule NewClientWithOptions_prefix)
  then show ?thesis by (simp add: Supported_def HasPrefix_append)
qed

theorem Supported_literal_prefix_witness:
  "NewClientWithOptions testEnv ''aws-kms://arn:aws-us-gov:kms:us-gov-east-1:235739564943:key/''
      [WithEncryptionContextName LegacyAdditionalData]
     = Inr \<lparr>keyURIPrefix = ''aws-kms://arn:aws-us-gov:kms:us-gov-east-1:235739564943:key/'',
            kms = None, encryptionContextName = 2, builder = LegacyBuilder\<rparr>
   \<and> Supported \<lparr>keyURIPrefix = ''aws-kms://arn:aws-us-gov:kms:us-gov-east-1:235739564943:key/'',
            kms = None, encryptionContextName = 2, builder = LegacyBuilder\<rparr>
        ''aws-kms://arn:aws-us-gov:kms:us-gov-east-1:235739564943:key/3ee50705''
   \<and> \<not> Supported \<lparr>keyURIPrefix = ''aws-kms://arn:aws-us-gov:kms:us-gov-east-1:235739564943:key/'',
            kms = None, encryptionContextName = 2, builder = LegacyBuilder\<rparr>
        ''aws-kms://arn:aws-us-gov:kms:us-gov-east-DOES-NOT-EXIST:key/''"
proof -
  have h: "NewClientWithOptions testEnv ''aws-kms://arn:aws-us-gov:kms:us-gov-east-1:235739564943:key/''
      [WithEncryptionContextName LegacyAdditionalData]
     = Inr \<lparr>keyURIPrefix = ''aws-kms://arn:aws-us-gov:kms:us-gov-east-1:235739564943:key/'',
            kms = None, encryptionContextName = 2, builder = LegacyBuilder\<rparr>"
    by (simp add: construct_simps)
  have y: "\<exists>t. ''aws-kms://arn:aws-us-gov:kms:us-gov-east-1:235739564943:key/3ee50705''
             = ''aws-kms://arn:aws-us-gov:kms:us-gov-east-1:235739564943:key/'' @ t"
    by simp
  have n: "\<not> (\<exists>t. ''aws-kms://arn:aws-us-gov:kms:us-gov-east-DOES-NOT-EXIST:key/''
             = ''aws-kms://arn:aws-us-gov:kms:us-gov-east-1:235739564943:key/'' @ t)"
    by simp
  from Supported_literal_prefix[OF h,
         of "''aws-kms://arn:aws-us-gov:kms:us-gov-east-1:235739564943:key/3ee50705''"] y
       Supported_literal_prefix[OF h,
         of "''aws-kms://arn:aws-us-gov:kms:us-gov-east-DOES-NOT-EXIST:key/''"] n h
  show ?thesis by blast
qed

section \<open>Handle and context field name are set once\<close>






section \<open>The default context field name\<close>

lemma built_name_valid:
  assumes "NewClientWithOptions E p opts = Inr c"
  shows "valid (encryptionContextName c)"
proof -
  from assms obtain a where
    1: "ClientOptions_set E opts (new_awsClient p) = Inr a"
    and 2: "c = (if encryptionContextName a = 0 then a\<lparr>encryptionContextName := AssociatedData\<rparr> else a)"
    by (rule NewClientWithOptions_Inr)
  have "encryptionContextName a = 0 \<or> valid (encryptionContextName a)"
    using ClientOptions_set_name_valid[OF 1] by (simp add: new_awsClient_def)
  with 2 show ?thesis by (cases "encryptionContextName a = 0") (simp_all add: valid_iff)
qed

lemma built_name_default:
  assumes "NewClientWithOptions E p opts = Inr c" and "\<forall>n. WithEncryptionContextName n \<notin> set opts"
  shows "encryptionContextName c = AssociatedData"
proof -
  from assms(1) obtain a where
    1: "ClientOptions_set E opts (new_awsClient p) = Inr a"
    and 2: "c = (if encryptionContextName a = 0 then a\<lparr>encryptionContextName := AssociatedData\<rparr> else a)"
    by (rule NewClientWithOptions_Inr)
  have "\<not> list_ex isContextNameOption opts"
    using assms(2) by (auto simp: list_ex_iff isContextNameOption_iff)
  from ClientOptions_set_name_other[OF 1 this] have "encryptionContextName a = 0"
    by (simp add: new_awsClient_def)
  with 2 show ?thesis by simp
qed

text \<open>
  Claim C8. A client built from an accepted prefix and options among which there is no
  \<open>WithEncryptionContextName\<close> has the context field name \<open>AssociatedData\<close>, whose
  string is \<open>associatedData\<close>. Every client that is built has a legal name, and the
  legal names are the two of the table: \<open>associatedData\<close> and \<open>additionalData\<close>.
\<close>

theorem default_context_name_AssociatedData:
  "(NewClientWithOptions E p opts = Inr c \<and> (\<forall>n. WithEncryptionContextName n \<notin> set opts) \<longrightarrow>
      encryptionContextName c = AssociatedData \<and>
      encryptionContextNames (encryptionContextName c) = Some ''associatedData'')
   \<and> (NewClientWithOptions E p opts = Inr c \<longrightarrow> valid (encryptionContextName c))
   \<and> (valid n \<longleftrightarrow> n = AssociatedData \<or> n = LegacyAdditionalData)
   \<and> (valid n \<longleftrightarrow> encryptionContextNames n = Some ''associatedData'' \<or>
                   encryptionContextNames n = Some ''additionalData'')
   \<and> encryptionContextNames AssociatedData = Some ''associatedData''
   \<and> encryptionContextNames LegacyAdditionalData = Some ''additionalData''"
proof (intro conjI impI)
  assume h: "NewClientWithOptions E p opts = Inr c \<and> (\<forall>n. WithEncryptionContextName n \<notin> set opts)"
  then show d: "encryptionContextName c = AssociatedData" using built_name_default by blast
  then show "encryptionContextNames (encryptionContextName c) = Some ''associatedData''"
    by (simp add: encryptionContextNames_def AssociatedData_def LegacyAdditionalData_def)
next
  assume "NewClientWithOptions E p opts = Inr c"
  then show "valid (encryptionContextName c)" by (rule built_name_valid)
next
  show "valid n \<longleftrightarrow> n = AssociatedData \<or> n = LegacyAdditionalData" by (rule valid_iff)
  show "valid n \<longleftrightarrow> encryptionContextNames n = Some ''associatedData'' \<or>
                   encryptionContextNames n = Some ''additionalData''"
    by (auto simp: valid_def encryptionContextNames_def AssociatedData_def LegacyAdditionalData_def)
  show "encryptionContextNames AssociatedData = Some ''associatedData''"
    by (simp add: encryptionContextNames_def AssociatedData_def LegacyAdditionalData_def)
  show "encryptionContextNames LegacyAdditionalData = Some ''additionalData''"
    by (simp add: encryptionContextNames_def AssociatedData_def LegacyAdditionalData_def)
qed

theorem default_context_name_AssociatedData_witness:
  "NewClientWithOptions testEnv ''aws-kms://'' [WithKMS (Some (CustomKMS 7)), UseV2]
     = Inr \<lparr>keyURIPrefix = ''aws-kms://'', kms = Some (CustomKMS 7), encryptionContextName = 1,
            builder = V2Builder new_v2Client\<rparr>
   \<and> (\<forall>n. WithEncryptionContextName n \<notin> set [WithKMS (Some (CustomKMS 7)), UseV2])
   \<and> encryptionContextNames
        (encryptionContextName
           \<lparr>keyURIPrefix = ''aws-kms://'', kms = Some (CustomKMS 7), encryptionContextName = 1,
            builder = V2Builder new_v2Client\<rparr>) = Some ''associatedData''"
proof -
  have h: "NewClientWithOptions testEnv ''aws-kms://'' [WithKMS (Some (CustomKMS 7)), UseV2]
     = Inr \<lparr>keyURIPrefix = ''aws-kms://'', kms = Some (CustomKMS 7), encryptionContextName = 1,
            builder = V2Builder new_v2Client\<rparr>"
    by (simp add: NewClientWithOptions_def new_awsClient_def ToLower_def HasPrefix_def
          awsPrefix_def testEnv_def RuneSelf_def isUpperByte_def AssociatedData_def)
  have n: "\<forall>n. WithEncryptionContextName n \<notin> set [WithKMS (Some (CustomKMS 7)), UseV2]"
    by simp
  from default_context_name_AssociatedData
         [of testEnv "''aws-kms://''" "[WithKMS (Some (CustomKMS 7)), UseV2]"
             "\<lparr>keyURIPrefix = ''aws-kms://'', kms = Some (CustomKMS 7), encryptionContextName = 1,
            builder = V2Builder new_v2Client\<rparr>"] h n
  show ?thesis by blast
qed

section \<open>Selecting a strategy\<close>

lemma ClientOption_set_builder_irrelevant:
  assumes "keyURIPrefix a2 = keyURIPrefix a1" "kms a2 = kms a1"
    "encryptionContextName a2 = encryptionContextName a1"
  shows "(isl (ClientOption_set E opt a2) = isl (ClientOption_set E opt a1)) \<and>
         (\<forall>b1 b2. ClientOption_set E opt a1 = Inr b1 \<and> ClientOption_set E opt a2 = Inr b2 \<longrightarrow>
            keyURIPrefix b2 = keyURIPrefix b1 \<and> kms b2 = kms b1 \<and>
            encryptionContextName b2 = encryptionContextName b1)"
proof (cases opt)
  case (WithCredentialPath path)
  then show ?thesis using assms
    by (cases "getKMSFromCredentialPath E (keyURIPrefix a1) path") auto
next
  case (WithKMS k)
  then show ?thesis using assms by auto
next
  case (WithEncryptionContextName n)
  then show ?thesis using assms by auto
next
  case UseV2
  then show ?thesis using assms by simp
next
  case (WithV2KMSOptions vs)
  then show ?thesis using assms
    by (cases "V2ClientOptions_set vs new_v2Client") auto
qed

lemma ClientOptions_set_builder_irrelevant:
  assumes "keyURIPrefix a2 = keyURIPrefix a1" "kms a2 = kms a1"
    "encryptionContextName a2 = encryptionContextName a1"
  shows "isl (ClientOptions_set E opts a2) = isl (ClientOptions_set E opts a1)"
  using assms
proof (induction opts arbitrary: a1 a2)
  case Nil
  then show ?case by simp
next
  case (Cons opt opts)
  note step = ClientOption_set_builder_irrelevant[OF Cons.prems, of E opt]
  show ?case
  proof (cases "ClientOption_set E opt a1")
    case (Inl err)
    with step have "isl (ClientOption_set E opt a2)" by simp
    then obtain err2 where "ClientOption_set E opt a2 = Inl err2"
      by (cases "ClientOption_set E opt a2") simp_all
    with Inl show ?thesis by simp
  next
    case (Inr b1)
    with step have "\<not> isl (ClientOption_set E opt a2)" by simp
    then obtain b2 where b2: "ClientOption_set E opt a2 = Inr b2"
      by (cases "ClientOption_set E opt a2") simp_all
    with step Inr have "keyURIPrefix b2 = keyURIPrefix b1" "kms b2 = kms b1"
      "encryptionContextName b2 = encryptionContextName b1" by blast+
    from Cons.IH[OF this] Inr b2 show ?thesis by simp
  qed
qed

lemma handle_with_credential_path_fails:
  assumes "WithKMS (Some k) \<in> set opts" "WithCredentialPath path \<in> set opts"
  shows "isl (ClientOptions_set E opts a)"
proof -
  from split_list[OF assms(1)] obtain us vs where o: "opts = us @ WithKMS (Some k) # vs" by blast
  with assms(2) consider "WithCredentialPath path \<in> set us" | "WithCredentialPath path \<in> set vs"
    by auto
  then show ?thesis
  proof cases
    case 1
    from split_list[OF 1] obtain xs ys where "us = xs @ WithCredentialPath path # ys" by blast
    with o have "opts = xs @ WithCredentialPath path # ys @ WithKMS (Some k) # vs" by simp
    then show ?thesis using two_suppliers_fail[of "WithCredentialPath path" "WithKMS (Some k)"] by simp
  next
    case 2
    from split_list[OF 2] obtain ys zs where "vs = ys @ WithCredentialPath path # zs" by blast
    with o have "opts = us @ WithKMS (Some k) # ys @ WithCredentialPath path # zs" by simp
    then show ?thesis using two_suppliers_fail[of "WithKMS (Some k)" "WithCredentialPath path"] by simp
  qed
qed

text \<open>
  Claim C2 says that selecting a strategy after one was selected makes the construction
  fail. It does not: \<open>UseV2\<close> and \<open>WithV2KMSOptions\<close> never look at the \<open>builder\<close> field
  they replace. Here a strategy is selected three times and the client is built.
\<close>

theorem strategy_reselection_counterexample:
  "NewClientWithOptions testEnv ''aws-kms://''
     [UseV2, WithV2KMSOptions [WithAPITimeout 1000000000], UseV2]
   = Inr \<lparr>keyURIPrefix = ''aws-kms://'', kms = None, encryptionContextName = AssociatedData,
          builder = V2Builder new_v2Client\<rparr>"
  by (simp add: construct_simps)

text \<open>
  Claim C2, amended. Selecting a strategy again is no error: whether a sequence of
  options is accepted does not depend on the closure in the \<open>builder\<close> field, \<open>UseV2\<close>
  after any accepted options is accepted and puts a fresh closure of the newer
  generation in the place of the one before, and \<open>WithV2KMSOptions\<close> does so whenever
  its own options agree among themselves. A legacy handle given with \<open>WithKMS\<close>
  together with a \<open>WithCredentialPath\<close> option, in either order and with anything
  between them, makes \<open>NewClientWithOptions\<close> itself fail, so that conflict is
  reported when the client is built.
\<close>

theorem strategy_reselection_replaces:
  "(isl (ClientOptions_set E opts (a\<lparr>builder := b\<rparr>)) = isl (ClientOptions_set E opts a))
   \<and> (ClientOptions_set E opts a = Inr a' \<longrightarrow>
        ClientOptions_set E (opts @ [UseV2]) a = Inr (a'\<lparr>builder := V2Builder new_v2Client\<rparr>))
   \<and> (ClientOptions_set E opts a = Inr a' \<and> V2ClientOptions_set vs new_v2Client = Inr v \<longrightarrow>
        ClientOptions_set E (opts @ [WithV2KMSOptions vs]) a = Inr (a'\<lparr>builder := V2Builder v\<rparr>))
   \<and> (WithKMS (Some k) \<in> set opts \<and> WithCredentialPath path \<in> set opts \<longrightarrow>
        isl (NewClientWithOptions E p opts))"
proof (intro conjI impI)
  show "isl (ClientOptions_set E opts (a\<lparr>builder := b\<rparr>)) = isl (ClientOptions_set E opts a)"
    by (rule ClientOptions_set_builder_irrelevant) simp_all
next
  assume "ClientOptions_set E opts a = Inr a'"
  then show "ClientOptions_set E (opts @ [UseV2]) a = Inr (a'\<lparr>builder := V2Builder new_v2Client\<rparr>)"
    by (simp add: ClientOptions_set_append)
next
  assume "ClientOptions_set E opts a = Inr a' \<and> V2ClientOptions_set vs new_v2Client = Inr v"
  then show "ClientOptions_set E (opts @ [WithV2KMSOptions vs]) a = Inr (a'\<lparr>builder := V2Builder v\<rparr>)"
    by (simp add: ClientOptions_set_append)
next
  assume "WithKMS (Some k) \<in> set opts \<and> WithCredentialPath path \<in> set opts"
  then show "isl (NewClientWithOptions E p opts)"
    by (intro NewClientWithOptions_isl handle_with_credential_path_fails[of k _ path]) simp_all
qed

theorem strategy_reselection_replaces_witness:
  "ClientOptions_set testEnv [UseV2] (new_awsClient ''aws-kms://'')
     = Inr ((new_awsClient ''aws-kms://'')\<lparr>builder := V2Builder new_v2Client\<rparr>)
   \<and> ClientOptions_set testEnv ([UseV2] @ [UseV2]) (new_awsClient ''aws-kms://'')
     = Inr ((new_awsClient ''aws-kms://'')\<lparr>builder := V2Builder new_v2Client, builder := V2Builder new_v2Client\<rparr>)
   \<and> V2ClientOptions_set [WithAPITimeout 1000000000] new_v2Client = Inr (new_v2Client\<lparr>timeout := 1000000000\<rparr>)
   \<and> ClientOptions_set testEnv ([UseV2] @ [WithV2KMSOptions [WithAPITimeout 1000000000]]) (new_awsClient ''aws-kms://'')
     = Inr ((new_awsClient ''aws-kms://'')\<lparr>builder := V2Builder new_v2Client,
              builder := V2Builder (new_v2Client\<lparr>timeout := 1000000000\<rparr>)\<rparr>)
   \<and> WithKMS (Some (CustomKMS 1)) \<in> set [WithCredentialPath ''credentials.csv'', UseV2, WithKMS (Some (CustomKMS 1))]
   \<and> WithCredentialPath ''credentials.csv'' \<in> set [WithCredentialPath ''credentials.csv'', UseV2, WithKMS (Some (CustomKMS 1))]
   \<and> isl (NewClientWithOptions testEnv ''aws-kms://arn:aws:kms:us-east-2:''
            [WithCredentialPath ''credentials.csv'', UseV2, WithKMS (Some (CustomKMS 1))])"
proof -
  have 1: "ClientOptions_set testEnv [UseV2] (new_awsClient ''aws-kms://'')
     = Inr ((new_awsClient ''aws-kms://'')\<lparr>builder := V2Builder new_v2Client\<rparr>)"
    by simp
  have 2: "V2ClientOptions_set [WithAPITimeout 1000000000] new_v2Client = Inr (new_v2Client\<lparr>timeout := 1000000000\<rparr>)"
    by (simp add: new_v2Client_def)
  have 3: "WithKMS (Some (CustomKMS 1)) \<in> set [WithCredentialPath ''credentials.csv'', UseV2, WithKMS (Some (CustomKMS 1))]
    \<and> WithCredentialPath ''credentials.csv'' \<in> set [WithCredentialPath ''credentials.csv'', UseV2, WithKMS (Some (CustomKMS 1))]"
    by simp
  note t = strategy_reselection_replaces
     [where E = testEnv and opts = "[UseV2]" and a = "new_awsClient ''aws-kms://''"
        and a' = "(new_awsClient ''aws-kms://'')\<lparr>builder := V2Builder new_v2Client\<rparr>"
        and vs = "[WithAPITimeout 1000000000]" and v = "new_v2Client\<lparr>timeout := 1000000000\<rparr>"]
  note u = strategy_reselection_replaces
     [where E = testEnv and opts = "[WithCredentialPath ''credentials.csv'', UseV2, WithKMS (Some (CustomKMS 1))]"
        and k = "CustomKMS 1" and path = "''credentials.csv''" and p = "''aws-kms://arn:aws:kms:us-east-2:''"]
  from t 1 have 4: "ClientOptions_set testEnv ([UseV2] @ [UseV2]) (new_awsClient ''aws-kms://'')
     = Inr ((new_awsClient ''aws-kms://'')\<lparr>builder := V2Builder new_v2Client, builder := V2Builder new_v2Client\<rparr>)"
    by blast
  from t 1 2 have 5: "ClientOptions_set testEnv ([UseV2] @ [WithV2KMSOptions [WithAPITimeout 1000000000]]) (new_awsClient ''aws-kms://'')
     = Inr ((new_awsClient ''aws-kms://'')\<lparr>builder := V2Builder new_v2Client,
              builder := V2Builder (new_v2Client\<lparr>timeout := 1000000000\<rparr>)\<rparr>)"
    by blast
  from u 3 have 6: "isl (NewClientWithOptions testEnv ''aws-kms://arn:aws:kms:us-east-2:''
            [WithCredentialPath ''credentials.csv'', UseV2, WithKMS (Some (CustomKMS 1))])"
    by blast
  from 1 2 3 4 5 6 show ?thesis by blast
qed

section \<open>Credential files\<close>

lemma extractCredsCSV_errors:
  assumes "extractCredsCSV E file = Inl err"
  shows "err = ErrBadFile \<or> err = ErrCredCSV \<or> err = ErrNotCSV \<or> (\<exists>msg. err = ErrCSVReader msg)"
proof (cases "os_Open E file")
  case None
  with assms show ?thesis by (simp add: extractCredsCSV_def)
next
  case (Some f)
  show ?thesis
  proof (cases "csv_ReadAll E f")
    case (Inl msg)
    with Some assms show ?thesis by (auto simp: extractCredsCSV_def)
  next
    case (Inr lines)
    with Some assms show ?thesis by (auto simp: extractCredsCSV_def split: if_splits)
  qed
qed

lemma credentialPathCredentials_shared_iff:
  "credentialPathCredentials E path = Inr (SharedCredentials path ''default'') \<longleftrightarrow>
     extractCredsCSV E path = Inl ErrNotCSV \<or> (\<exists>msg. extractCredsCSV E path = Inl (ErrCSVReader msg))"
proof (cases "extractCredsCSV E path")
  case (Inl err)
  from extractCredsCSV_errors[OF Inl] Inl show ?thesis
    by (auto simp: credentialPathCredentials_def)
next
  case (Inr c)
  then show ?thesis by (simp add: credentialPathCredentials_def)
qed

lemma getKMSFromCredentialPath_unfold:
  assumes "getRegion p = Inr r" "path \<noteq> []"
  shows "getKMSFromCredentialPath E p path =
     (case credentialPathCredentials E path of
        Inl err \<Rightarrow> Inl err
      | Inr creds \<Rightarrow>
          (case NewSession E \<lparr>Credentials = Some creds, Region = r\<rparr> of
             Inl err \<Rightarrow> Inl err
           | Inr s \<Rightarrow> Inr (KMS_New s)))"
  using assms by (simp add: getKMSFromCredentialPath_def)

text \<open>
  Claim C1 says that the INI parser is tried after the malformed-file error and not
  after other errors of the CSV reader. The source does the opposite in both cases: the
  malformed file is an error of the construction, and a file the CSV reader rejects is
  handed to the INI parser.
\<close>

theorem ini_fallback_counterexample:
  "extractCredsCSV testEnv ''access_keys_bad.csv'' = Inl ErrCredCSV
   \<and> credentialPathCredentials testEnv ''access_keys_bad.csv'' = Inl ErrCredCSV
   \<and> getKMSFromCredentialPath testEnv ''aws-kms://arn:aws:kms:us-east-2:'' ''access_keys_bad.csv''
       = Inl ErrCredCSV
   \<and> extractCredsCSV testEnv ''quoted.csv'' = Inl (ErrCSVReader ''bare quote in non-quoted field'')
   \<and> credentialPathCredentials testEnv ''quoted.csv'' = Inr (SharedCredentials ''quoted.csv'' ''default'')
   \<and> getKMSFromCredentialPath testEnv ''aws-kms://arn:aws:kms:us-east-2:'' ''quoted.csv''
       = Inr (KMS_New (Session \<lparr>Credentials = Some (SharedCredentials ''quoted.csv'' ''default''),
                               Region = ''us-east-2''\<rparr>))"
  by (simp add: creds_simps region_simps testEnv_def)

text \<open>
  Claim C1, amended. Credential resolution hands the file to the INI parser (shared
  credentials of the section \<open>default\<close>) exactly when the CSV parser reports that the
  file is not of its format (a first line of a single column) or the CSV reader itself
  fails; the cannot-open error and the malformed-file error are returned to the caller
  and no fallback is tried; credentials that the CSV parser extracts are used as static
  credentials. With a region that parses and a path that is not empty,
  \<open>getKMSFromCredentialPath\<close> returns those two errors as they are, and on a
  fallback it makes the session with the shared credentials.
\<close>

theorem ini_fallback_exactly:
  "(credentialPathCredentials E path = Inr (SharedCredentials path ''default'') \<longleftrightarrow>
      extractCredsCSV E path = Inl ErrNotCSV \<or> (\<exists>msg. extractCredsCSV E path = Inl (ErrCSVReader msg)))
   \<and> (extractCredsCSV E path = Inl ErrBadFile \<longrightarrow> credentialPathCredentials E path = Inl ErrBadFile)
   \<and> (extractCredsCSV E path = Inl ErrCredCSV \<longrightarrow> credentialPathCredentials E path = Inl ErrCredCSV)
   \<and> (extractCredsCSV E path = Inr c \<longrightarrow>
        credentialPathCredentials E path = Inr (StaticCredentials (AccessKeyID c) (SecretAccessKey c)))
   \<and> (getRegion p = Inr r \<and> path \<noteq> [] \<and> extractCredsCSV E path = Inl ErrBadFile \<longrightarrow>
        getKMSFromCredentialPath E p path = Inl ErrBadFile)
   \<and> (getRegion p = Inr r \<and> path \<noteq> [] \<and> extractCredsCSV E path = Inl ErrCredCSV \<longrightarrow>
        getKMSFromCredentialPath E p path = Inl ErrCredCSV)
   \<and> (getRegion p = Inr r \<and> path \<noteq> [] \<and>
       (extractCredsCSV E path = Inl ErrNotCSV \<or> extractCredsCSV E path = Inl (ErrCSVReader msg)) \<longrightarrow>
        getKMSFromCredentialPath E p path =
          (case NewSession E \<lparr>Credentials = Some (SharedCredentials path ''default''), Region = r\<rparr> of
             Inl err \<Rightarrow> Inl err
           | Inr s \<Rightarrow> Inr (KMS_New s)))"
proof (intro conjI impI)
  show "credentialPathCredentials E path = Inr (SharedCredentials path ''default'') \<longleftrightarrow>
      extractCredsCSV E path = Inl ErrNotCSV \<or> (\<exists>msg. extractCredsCSV E path = Inl (ErrCSVReader msg))"
    by (rule credentialPathCredentials_shared_iff)
next
  assume "extractCredsCSV E path = Inl ErrBadFile"
  then show "credentialPathCredentials E path = Inl ErrBadFile"
    by (simp add: credentialPathCredentials_def)
next
  assume "extractCredsCSV E path = Inl ErrCredCSV"
  then show "credentialPathCredentials E path = Inl ErrCredCSV"
    by (simp add: credentialPathCredentials_def)
next
  assume "extractCredsCSV E path = Inr c"
  then show "credentialPathCredentials E path = Inr (StaticCredentials (AccessKeyID c) (SecretAccessKey c))"
    by (simp add: credentialPathCredentials_def)
next
  assume "getRegion p = Inr r \<and> path \<noteq> [] \<and> extractCredsCSV E path = Inl ErrBadFile"
  then show "getKMSFromCredentialPath E p path = Inl ErrBadFile"
    by (simp add: getKMSFromCredentialPath_unfold credentialPathCredentials_def)
next
  assume "getRegion p = Inr r \<and> path \<noteq> [] \<and> extractCredsCSV E path = Inl ErrCredCSV"
  then show "getKMSFromCredentialPath E p path = Inl ErrCredCSV"
    by (simp add: getKMSFromCredentialPath_unfold credentialPathCredentials_def)
next
  assume a: "getRegion p = Inr r \<and> path \<noteq> [] \<and>
       (extractCredsCSV E path = Inl ErrNotCSV \<or> extractCredsCSV E path = Inl (ErrCSVReader msg))"
  then have "credentialPathCredentials E path = Inr (SharedCredentials path ''default'')"
    unfolding credentialPathCredentials_shared_iff by blast
  with a show "getKMSFromCredentialPath E p path =
          (case NewSession E \<lparr>Credentials = Some (SharedCredentials path ''default''), Region = r\<rparr> of
             Inl err \<Rightarrow> Inl err
           | Inr s \<Rightarrow> Inr (KMS_New s))"
    by (simp add: getKMSFromCredentialPath_unfold)
qed

theorem ini_fallback_exactly_witness:
  "extractCredsCSV testEnv ''credentials.cred'' = Inl ErrNotCSV
   \<and> credentialPathCredentials testEnv ''credentials.cred''
       = Inr (SharedCredentials ''credentials.cred'' ''default'')
   \<and> extractCredsCSV testEnv ''no such file'' = Inl ErrBadFile
   \<and> credentialPathCredentials testEnv ''no such file'' = Inl ErrBadFile
   \<and> getRegion ''aws-kms://arn:aws:kms:us-east-2:'' = Inr ''us-east-2''
   \<and> getKMSFromCredentialPath testEnv ''aws-kms://arn:aws:kms:us-east-2:'' ''no such file'' = Inl ErrBadFile"
proof -
  have 1: "extractCredsCSV testEnv ''credentials.cred'' = Inl ErrNotCSV"
    by (simp add: creds_simps testEnv_def)
  have 2: "extractCredsCSV testEnv ''no such file'' = Inl ErrBadFile"
    by (simp add: creds_simps testEnv_def)
  have 3: "getRegion ''aws-kms://arn:aws:kms:us-east-2:'' = Inr ''us-east-2''"
    by (simp add: region_simps)
  have 4: "''no such file'' \<noteq> []" by simp
  from ini_fallback_exactly[of testEnv "''credentials.cred''"] 1
  have 5: "credentialPathCredentials testEnv ''credentials.cred''
       = Inr (SharedCredentials ''credentials.cred'' ''default'')" by blast
  from ini_fallback_exactly[of testEnv "''no such file''" _ "''aws-kms://arn:aws:kms:us-east-2:''" "''us-east-2''"] 2 3 4
  have 6: "credentialPathCredentials testEnv ''no such file'' = Inl ErrBadFile"
    and 7: "getKMSFromCredentialPath testEnv ''aws-kms://arn:aws:kms:us-east-2:'' ''no such file'' = Inl ErrBadFile"
    by blast+
  from 1 2 3 5 6 7 show ?thesis by blast
qed

text \<open>
  Claim C6 says that a parse whose second line has fewer than four fields gives the
  malformed-file error. The single-column test comes first in the source: an INI file,
  read as CSV, has lines of one field each and gives the not-a-CSV-file signal.
\<close>

theorem malformed_precedence_counterexample:
  "os_Open testEnv ''credentials.cred'' = Some ''credentials.cred''
   \<and> csv_ReadAll testEnv ''credentials.cred'' = Inr testINI
   \<and> length (testINI ! 1) < 4
   \<and> extractCredsCSV testEnv ''credentials.cred'' = Inl ErrNotCSV
   \<and> extractCredsCSV testEnv ''credentials.cred'' \<noteq> Inl ErrCredCSV"
  by (simp add: creds_simps testEnv_def)

text \<open>
  Claim C6, amended. A file that cannot be opened gives the cannot-open error. When the
  CSV parse has at least two lines, a first line of more than one field and a second
  line of at least four fields, the access key id is the field at index 2 of the second
  line and the secret access key the field at index 3. A parse with a first line of
  exactly one field gives the not-a-CSV-file signal, whatever else it holds. A parse
  that has no such first line, and has fewer than two lines or a second line of fewer
  than four fields, gives the malformed-file error.
\<close>

theorem extractCredsCSV_cases:
  "(os_Open E file = None \<longrightarrow> extractCredsCSV E file = Inl ErrBadFile)
   \<and> (os_Open E file = Some f \<and> csv_ReadAll E f = Inr lines \<and>
       2 \<le> length lines \<and> 1 < length (lines ! 0) \<and> 4 \<le> length (lines ! 1) \<longrightarrow>
        extractCredsCSV E file = Inr \<lparr>AccessKeyID = lines ! 1 ! 2, SecretAccessKey = lines ! 1 ! 3\<rparr>)
   \<and> (os_Open E file = Some f \<and> csv_ReadAll E f = Inr lines \<and>
       (lines = [] \<or> length (lines ! 0) \<noteq> 1) \<and> (length lines < 2 \<or> length (lines ! 1) < 4) \<longrightarrow>
        extractCredsCSV E file = Inl ErrCredCSV)
   \<and> (os_Open E file = Some f \<and> csv_ReadAll E f = Inr lines \<and>
       lines \<noteq> [] \<and> length (lines ! 0) = 1 \<longrightarrow>
        extractCredsCSV E file = Inl ErrNotCSV)"
  by (auto simp: extractCredsCSV_def)

theorem extractCredsCSV_cases_witness:
  "os_Open testEnv ''credentials.csv'' = Some ''credentials.csv''
   \<and> csv_ReadAll testEnv ''credentials.csv'' = Inr testCSV
   \<and> 2 \<le> length testCSV \<and> 1 < length (testCSV ! 0) \<and> 4 \<le> length (testCSV ! 1)
   \<and> extractCredsCSV testEnv ''credentials.csv'' = Inr \<lparr>AccessKeyID = ''AKIAEXAMPLE'', SecretAccessKey = ''SECRETEXAMPLE''\<rparr>
   \<and> os_Open testEnv ''access_keys_bad.csv'' = Some ''access_keys_bad.csv''
   \<and> csv_ReadAll testEnv ''access_keys_bad.csv'' = Inr testBadCSV
   \<and> length (testBadCSV ! 0) \<noteq> 1 \<and> length (testBadCSV ! 1) < 4
   \<and> extractCredsCSV testEnv ''access_keys_bad.csv'' = Inl ErrCredCSV
   \<and> os_Open testEnv ''credentials.cred'' = Some ''credentials.cred''
   \<and> csv_ReadAll testEnv ''credentials.cred'' = Inr testINI
   \<and> testINI \<noteq> [] \<and> length (testINI ! 0) = 1
   \<and> extractCredsCSV testEnv ''credentials.cred'' = Inl ErrNotCSV
   \<and> os_Open testEnv ''no such file'' = None
   \<and> extractCredsCSV testEnv ''no such file'' = Inl ErrBadFile"
proof -
  have a: "os_Open testEnv ''credentials.csv'' = Some ''credentials.csv''
     \<and> csv_ReadAll testEnv ''credentials.csv'' = Inr testCSV
     \<and> 2 \<le> length testCSV \<and> 1 < length (testCSV ! 0) \<and> 4 \<le> length (testCSV ! 1)"
    by (simp add: testEnv_def testCSV_def)
  have b: "os_Open testEnv ''access_keys_bad.csv'' = Some ''access_keys_bad.csv''
     \<and> csv_ReadAll testEnv ''access_keys_bad.csv'' = Inr testBadCSV
     \<and> length (testBadCSV ! 0) \<noteq> 1 \<and> length (testBadCSV ! 1) < 4"
    by (simp add: testEnv_def testBadCSV_def)
  have c: "os_Open testEnv ''credentials.cred'' = Some ''credentials.cred''
     \<and> csv_ReadAll testEnv ''credentials.cred'' = Inr testINI
     \<and> testINI \<noteq> [] \<and> length (testINI ! 0) = 1"
    by (simp add: testEnv_def testINI_def)
  have d: "os_Open testEnv ''no such file'' = None"
    by (simp add: testEnv_def)
  have v: "testCSV ! 1 ! 2 = ''AKIAEXAMPLE'' \<and> testCSV ! 1 ! 3 = ''SECRETEXAMPLE''"
    by (simp add: testCSV_def)
  from extractCredsCSV_cases[of testEnv "''credentials.csv''" "''credentials.csv''" testCSV] a v
  have 1: "extractCredsCSV testEnv ''credentials.csv'' = Inr \<lparr>AccessKeyID = ''AKIAEXAMPLE'', SecretAccessKey = ''SECRETEXAMPLE''\<rparr>"
    by simp
  from extractCredsCSV_cases[of testEnv "''access_keys_bad.csv''" "''access_keys_bad.csv''" testBadCSV] b
  have 2: "extractCredsCSV testEnv ''access_keys_bad.csv'' = Inl ErrCredCSV"
    by blast
  from extractCredsCSV_cases[of testEnv "''credentials.cred''" "''credentials.cred''" testINI] c
  have 3: "extractCredsCSV testEnv ''credentials.cred'' = Inl ErrNotCSV"
    by blast
  from extractCredsCSV_cases[of testEnv "''no such file''"] d
  have 4: "extractCredsCSV testEnv ''no such file'' = Inl ErrBadFile"
    by blast
  from a b c d 1 2 3 4 show ?thesis by blast
qed

section \<open>Resolving a key URI\<close>

lemma TrimPrefix_append: "TrimPrefix (pre @ rest) pre = rest"
  by (simp add: TrimPrefix_def HasPrefix_def)

lemma TrimPrefix_other: "\<not> HasPrefix s pre \<Longrightarrow> TrimPrefix s pre = s"
  by (simp add: TrimPrefix_def)

lemma HasPrefix_trans: "HasPrefix s p \<Longrightarrow> HasPrefix p q \<Longrightarrow> HasPrefix s q"
  unfolding HasPrefix_append by auto

lemma legacyBuilder_Inr:
  assumes "legacyBuilder E c uri n = (Inr aead, c')"
  shows "aead_keyURI aead = uri \<and> aead_contextName aead = n \<and>
         (\<exists>k. aead = AWSAEAD uri k n \<and> kms c' = Some k \<and> c' = c\<lparr>kms := Some k\<rparr> \<and>
              (kms c = None \<longrightarrow> getKMS E (keyURIPrefix c) = Inr k) \<and>
              (kms c \<noteq> None \<longrightarrow> kms c = Some k))"
proof (cases "kms c")
  case None
  show ?thesis
  proof (cases "getKMS E (keyURIPrefix c)")
    case (Inl err)
    with None assms show ?thesis by (simp add: legacyBuilder_def)
  next
    case (Inr k)
    with None assms show ?thesis by (auto simp: legacyBuilder_def newAWSAEAD_def)
  qed
next
  case (Some k)
  with assms show ?thesis by (auto simp: legacyBuilder_def newAWSAEAD_def)
qed

lemma legacyBuilder_Inl:
  assumes "legacyBuilder E c uri n = (Inl err, c')"
  shows "c' = c \<and> kms c = None \<and> getKMS E (keyURIPrefix c) = Inl err"
proof (cases "kms c")
  case None
  show ?thesis
  proof (cases "getKMS E (keyURIPrefix c)")
    case (Inl e)
    with None assms show ?thesis by (simp add: legacyBuilder_def)
  next
    case (Inr k)
    with None assms show ?thesis by (simp add: legacyBuilder_def)
  qed
next
  case (Some k)
  with assms show ?thesis by (simp add: legacyBuilder_def)
qed

lemma BuildAead_Some:
  assumes "v2_kms v = Some k"
  shows "BuildAead E v uri n =
           (Inr (AWSV2AEAD uri k n (effectiveTimeout v)), v\<lparr>timeout := effectiveTimeout v\<rparr>)"
  using assms
  by (cases "timeout v = 0") (simp_all add: BuildAead_def Let_def newAWSV2AEAD_def effectiveTimeout_def)

lemma BuildAead_None_Inl:
  assumes "v2_kms v = None" "config_LoadDefaultConfig E (effectiveTimeout v) (loadOpts v) = Inl msg"
  shows "BuildAead E v uri n = (Inl (ErrLoadConfig msg), v\<lparr>timeout := effectiveTimeout v\<rparr>)"
  using assms
  by (cases "timeout v = 0") (simp_all add: BuildAead_def Let_def effectiveTimeout_def)

lemma BuildAead_None_Inr:
  assumes "v2_kms v = None" "config_LoadDefaultConfig E (effectiveTimeout v) (loadOpts v) = Inr cfg"
  shows "BuildAead E v uri n =
           (Inr (AWSV2AEAD uri (KMSV2_NewFromConfig cfg (kmsOpts v)) n (effectiveTimeout v)),
            v\<lparr>timeout := effectiveTimeout v, v2_kms := Some (KMSV2_NewFromConfig cfg (kmsOpts v))\<rparr>)"
  using assms
  by (cases "timeout v = 0") (simp_all add: BuildAead_def Let_def newAWSV2AEAD_def effectiveTimeout_def)

lemma GetAEAD_unsupported:
  "\<not> Supported c s \<Longrightarrow> GetAEAD E c s = (Inl (ErrUnsupportedKeyURI (keyURIPrefix c) s), c)"
  by (simp add: GetAEAD_def)

lemma GetAEAD_supported:
  "Supported c s \<Longrightarrow>
   GetAEAD E c s =
     (case call_builder E c (TrimPrefix s awsPrefix) (encryptionContextName c) of
        (Inl err, c') \<Rightarrow> (Inl (ErrBuildingAEAD err), c')
      | (Inr aead, c') \<Rightarrow> (Inr aead, c'))"
  by (simp add: GetAEAD_def Let_def)

lemma call_builder_legacy:
  "builder c = LegacyBuilder \<Longrightarrow> call_builder E c uri n = legacyBuilder E c uri n"
  by (simp add: call_builder_def)

lemma call_builder_v2:
  "builder c = V2Builder v \<Longrightarrow>
   call_builder E c uri n =
     (fst (BuildAead E v uri n), c\<lparr>builder := V2Builder (snd (BuildAead E v uri n))\<rparr>)"
  by (simp add: call_builder_def split: prod.splits)

lemma call_builder_handle_set:
  assumes "activeHandle c = Some h"
  shows "\<exists>aead c'. call_builder E c uri n = (Inr aead, c') \<and> aead_handle aead = h \<and>
           aead_keyURI aead = uri \<and> aead_contextName aead = n \<and> activeHandle c' = Some h \<and>
           keyURIPrefix c' = keyURIPrefix c \<and> encryptionContextName c' = encryptionContextName c \<and>
           call_builder E' c uri n = (Inr aead, c')"
proof (cases "builder c")
  case LegacyBuilder
  with assms obtain k where k: "kms c = Some k" "h = Inl k"
    by (auto simp: activeHandle_def)
  have "legacyBuilder E c uri n = (Inr (AWSAEAD uri k n), c)"
    "legacyBuilder E' c uri n = (Inr (AWSAEAD uri k n), c)"
    using k by (simp_all add: legacyBuilder_def newAWSAEAD_def)
  with LegacyBuilder k assms show ?thesis
    by (simp add: call_builder_legacy)
next
  case (V2Builder v)
  with assms obtain k where k: "v2_kms v = Some k" "h = Inr k"
    by (auto simp: activeHandle_def)
  let ?c' = "c\<lparr>builder := V2Builder (v\<lparr>timeout := effectiveTimeout v\<rparr>)\<rparr>"
  have "call_builder E c uri n = (Inr (AWSV2AEAD uri k n (effectiveTimeout v)), ?c')"
    "call_builder E' c uri n = (Inr (AWSV2AEAD uri k n (effectiveTimeout v)), ?c')"
    using V2Builder k by (simp_all add: call_builder_v2 BuildAead_Some)
  moreover have "activeHandle ?c' = Some h" using k by (simp add: activeHandle_def)
  ultimately show ?thesis using k by simp
qed

lemma call_builder_handle_unset:
  assumes "activeHandle c = None" "call_builder E c uri n = (res, c')"
  shows "keyURIPrefix c' = keyURIPrefix c \<and> encryptionContextName c' = encryptionContextName c \<and>
         (case res of
            Inl err \<Rightarrow> activeHandle c' = None
          | Inr aead \<Rightarrow> activeHandle c' = Some (aead_handle aead) \<and> aead_keyURI aead = uri \<and>
                        aead_contextName aead = n)"
proof (cases "builder c")
  case LegacyBuilder
  with assms have n: "kms c = None" and l: "legacyBuilder E c uri n = (res, c')"
    by (simp_all add: activeHandle_def call_builder_legacy)
  show ?thesis
  proof (cases res)
    case (Inl err)
    with l legacyBuilder_Inl[of E c uri n err c'] assms(1) show ?thesis by simp
  next
    case (Inr aead)
    with l legacyBuilder_Inr[of E c uri n aead c'] obtain k where
      "aead = AWSAEAD uri k n" "c' = c\<lparr>kms := Some k\<rparr>" by blast
    with Inr LegacyBuilder show ?thesis by (simp add: activeHandle_def)
  qed
next
  case (V2Builder v)
  with assms(1) have n: "v2_kms v = None" by (simp add: activeHandle_def)
  show ?thesis
  proof (cases "config_LoadDefaultConfig E (effectiveTimeout v) (loadOpts v)")
    case (Inl msg)
    from BuildAead_None_Inl[OF n Inl] V2Builder assms(2) n show ?thesis
      by (auto simp: call_builder_v2 activeHandle_def)
  next
    case (Inr cfg)
    from BuildAead_None_Inr[OF n Inr] V2Builder assms(2) show ?thesis
      by (auto simp: call_builder_v2 activeHandle_def)
  qed
qed


lemma GetAEAD_handle_unset:
  assumes "activeHandle c = None" "GetAEAD E c s = (res, c')"
  shows "keyURIPrefix c' = keyURIPrefix c \<and> encryptionContextName c' = encryptionContextName c \<and>
         (case res of
            Inl err \<Rightarrow> activeHandle c' = None
          | Inr aead \<Rightarrow> activeHandle c' = Some (aead_handle aead) \<and>
                        aead_keyURI aead = TrimPrefix s awsPrefix \<and>
                        aead_contextName aead = encryptionContextName c)"
proof (cases "Supported c s")
  case False
  with assms show ?thesis by (auto simp: GetAEAD_unsupported)
next
  case True
  obtain r1 c1 where 1: "call_builder E c (TrimPrefix s awsPrefix) (encryptionContextName c) = (r1, c1)"
    by (cases "call_builder E c (TrimPrefix s awsPrefix) (encryptionContextName c)")
  note cb = call_builder_handle_unset[OF assms(1) 1]
  show ?thesis
  proof (cases r1)
    case (Inl err)
    with True 1 assms(2) have "res = Inl (ErrBuildingAEAD err)" "c' = c1"
      by (simp_all add: GetAEAD_supported)
    with cb Inl show ?thesis by simp
  next
    case (Inr aead)
    with True 1 assms(2) have "res = Inr aead" "c' = c1"
      by (simp_all add: GetAEAD_supported)
    with cb Inr show ?thesis by simp
  qed
qed

lemma GetAEAD_Inr:
  assumes "GetAEAD E c s = (Inr aead, c')"
  shows "Supported c s \<and> aead_keyURI aead = TrimPrefix s awsPrefix \<and>
         aead_contextName aead = encryptionContextName c \<and>
         activeHandle c' = Some (aead_handle aead)"
proof -
  have S: "Supported c s" using assms by (cases "Supported c s") (simp_all add: GetAEAD_unsupported)
  show ?thesis
  proof (cases "activeHandle c")
    case None
    from GetAEAD_handle_unset[OF None assms] S show ?thesis by simp
  next
    case (Some h)
    from call_builder_handle_set[OF Some, of E "TrimPrefix s awsPrefix" "encryptionContextName c" E]
    obtain a1 c1 where
      1: "call_builder E c (TrimPrefix s awsPrefix) (encryptionContextName c) = (Inr a1, c1)" and
      2: "aead_handle a1 = h" "aead_keyURI a1 = TrimPrefix s awsPrefix"
         "aead_contextName a1 = encryptionContextName c" "activeHandle c1 = Some h"
      by blast
    from S 1 have "GetAEAD E c s = (Inr a1, c1)" by (simp add: GetAEAD_supported)
    with assms 2 S show ?thesis by simp
  qed
qed

lemmas resolve_simps =
  GetAEAD_def Supported_def TrimPrefix_def call_builder_def legacyBuilder_def BuildAead_def
  newAWSAEAD_def newAWSV2AEAD_def getKMS_def NewSession_def defaultTimeout_def

text \<open>
  What \<open>GetAEAD\<close> does on a key URI it does not support, and on a supported key URI
  that starts with the lower-case scheme: the error carries the expected prefix and the
  key URI received and the descriptor stays as it was; the closure in the \<open>builder\<close>
  field receives what follows the scheme and the configured context field name, and its
  adapter, or its error wrapped once, is returned.
\<close>

lemma GetAEAD_lower_case_scheme:
  "(\<not> Supported c s \<longrightarrow> GetAEAD E c s = (Inl (ErrUnsupportedKeyURI (keyURIPrefix c) s), c))
   \<and> (HasPrefix (keyURIPrefix c) awsPrefix \<and> Supported c s \<longrightarrow> (\<exists>rest. s = awsPrefix @ rest))
   \<and> (Supported c (awsPrefix @ rest) \<longrightarrow>
        GetAEAD E c (awsPrefix @ rest) =
          (case call_builder E c rest (encryptionContextName c) of
             (Inl err, c') \<Rightarrow> (Inl (ErrBuildingAEAD err), c')
           | (Inr aead, c') \<Rightarrow> (Inr aead, c')))
   \<and> (GetAEAD E c (awsPrefix @ rest) = (Inr aead, c') \<longrightarrow>
        aead_keyURI aead = rest \<and> aead_contextName aead = encryptionContextName c \<and>
        activeHandle c' = Some (aead_handle aead))
   \<and> (Supported c s \<and> builder c = LegacyBuilder \<and> kms c = None \<and>
       getRegion (keyURIPrefix c) = Inl err \<longrightarrow>
        GetAEAD E c s = (Inl (ErrBuildingAEAD ErrRegion), c))"
proof (intro conjI impI)
  assume "\<not> Supported c s"
  then show "GetAEAD E c s = (Inl (ErrUnsupportedKeyURI (keyURIPrefix c) s), c)"
    by (rule GetAEAD_unsupported)
next
  assume "HasPrefix (keyURIPrefix c) awsPrefix \<and> Supported c s"
  then have "HasPrefix s awsPrefix" unfolding Supported_def using HasPrefix_trans by blast
  then show "\<exists>rest. s = awsPrefix @ rest" unfolding HasPrefix_append .
next
  assume "Supported c (awsPrefix @ rest)"
  then show "GetAEAD E c (awsPrefix @ rest) =
          (case call_builder E c rest (encryptionContextName c) of
             (Inl err, c') \<Rightarrow> (Inl (ErrBuildingAEAD err), c')
           | (Inr aead, c') \<Rightarrow> (Inr aead, c'))"
    by (simp add: GetAEAD_supported TrimPrefix_append)
next
  assume "GetAEAD E c (awsPrefix @ rest) = (Inr aead, c')"
  from GetAEAD_Inr[OF this]
  show "aead_keyURI aead = rest" and "aead_contextName aead = encryptionContextName c"
    and "activeHandle c' = Some (aead_handle aead)"
    by (simp_all add: TrimPrefix_append)
next
  assume a: "Supported c s \<and> builder c = LegacyBuilder \<and> kms c = None \<and>
       getRegion (keyURIPrefix c) = Inl err"
  then have "getRegion (keyURIPrefix c) = Inl ErrRegion" using getRegion_Inl by blast
  then have "getKMS E (keyURIPrefix c) = Inl ErrRegion" by (simp add: getKMS_def)
  with a have "call_builder E c (TrimPrefix s awsPrefix) (encryptionContextName c) = (Inl ErrRegion, c)"
    by (simp add: call_builder_legacy legacyBuilder_def)
  with a show "GetAEAD E c s = (Inl (ErrBuildingAEAD ErrRegion), c)"
    by (simp add: GetAEAD_supported)
qed

text \<open>
  Claim C4. On a supported key URI \<open>GetAEAD\<close> is to strip the scheme and hand the
  remainder to the closure. \<open>NewClientWithOptions\<close> lowers the prefix before it compares
  it with the scheme, so a client is built for the scheme in any letter case;
  \<open>GetAEAD\<close> strips with \<open>TrimPrefix\<close> and the lower-case constant and misses every
  other spelling. For the client built with the prefix \<open>AWS-KMS://\<close> the key URI below
  is supported, and the adapter returned is bound to the whole key URI, the scheme still
  on it, where the claim has the remainder \<open>arn:aws:kms:us-east-2:key/1\<close>.
\<close>

theorem GetAEAD_upper_case_scheme_kept:
  "NewClientWithOptions testEnv ''AWS-KMS://'' [WithKMS (Some (CustomKMS 1))]
     = Inr \<lparr>keyURIPrefix = ''AWS-KMS://'', kms = Some (CustomKMS 1),
            encryptionContextName = AssociatedData, builder = LegacyBuilder\<rparr>
   \<and> Supported \<lparr>keyURIPrefix = ''AWS-KMS://'', kms = Some (CustomKMS 1),
            encryptionContextName = AssociatedData, builder = LegacyBuilder\<rparr>
         ''AWS-KMS://arn:aws:kms:us-east-2:key/1''
   \<and> GetAEAD testEnv \<lparr>keyURIPrefix = ''AWS-KMS://'', kms = Some (CustomKMS 1),
            encryptionContextName = AssociatedData, builder = LegacyBuilder\<rparr>
         ''AWS-KMS://arn:aws:kms:us-east-2:key/1''
     = (Inr (AWSAEAD ''AWS-KMS://arn:aws:kms:us-east-2:key/1'' (CustomKMS 1) AssociatedData),
        \<lparr>keyURIPrefix = ''AWS-KMS://'', kms = Some (CustomKMS 1),
            encryptionContextName = AssociatedData, builder = LegacyBuilder\<rparr>)"
  by (simp add: construct_simps resolve_simps char_of_def bit_Suc_0_iff)

section \<open>The handle is made once\<close>
















section \<open>The letter case of the scheme\<close>

lemma lowerByte_ascii:
  assumes "(of_char (lowerByte c) :: nat) < RuneSelf"
  shows "(of_char c :: nat) < RuneSelf"
proof (cases "isUpperByte c")
  case True
  then show ?thesis by (simp add: isUpperByte_def RuneSelf_def)
next
  case False
  with assms show ?thesis by (simp add: lowerByte_def)
qed

lemma schemeSpelling_ascii:
  assumes "schemeSpelling sch"
  shows "list_all (\<lambda>c. (of_char c :: nat) < RuneSelf) sch"
proof -
  have "list_all (\<lambda>c. (of_char c :: nat) < RuneSelf) (map lowerByte sch)"
    using assms by (simp add: schemeSpelling_def awsPrefix_def RuneSelf_def)
  then show ?thesis
    by (simp add: list_all_iff lowerByte_ascii)
qed

lemma schemeSpelling_length: "schemeSpelling sch \<Longrightarrow> length sch = length awsPrefix"
  unfolding schemeSpelling_def by (metis length_map)

lemma Map_ToLower_append:
  "list_all (\<lambda>c. (of_char c :: nat) < RuneSelf) xs \<Longrightarrow>
   Map_ToLower uni (xs @ ys) = map lowerByte xs @ Map_ToLower uni ys"
  by (induction xs) simp_all

lemma map_lowerByte_no_upper: "\<not> list_ex isUpperByte xs \<Longrightarrow> map lowerByte xs = xs"
  by (induction xs) (simp_all add: lowerByte_def)

lemma ToLower_scheme:
  assumes "schemeSpelling sch"
  shows "HasPrefix (ToLower uni (sch @ rest)) awsPrefix"
proof (cases "list_all (\<lambda>c. (of_char c :: nat) < RuneSelf) (sch @ rest)")
  case True
  show ?thesis
  proof (cases "list_ex isUpperByte (sch @ rest)")
    case up: True
    with True have "ToLower uni (sch @ rest) = map lowerByte (sch @ rest)"
      by (simp only: ToLower_def if_True)
    with assms have "ToLower uni (sch @ rest) = awsPrefix @ map lowerByte rest"
      by (simp add: schemeSpelling_def)
    then show ?thesis unfolding HasPrefix_append by blast
  next
    case False
    then have "\<not> list_ex isUpperByte sch" by simp
    from map_lowerByte_no_upper[OF this] assms have "sch = awsPrefix"
      by (simp add: schemeSpelling_def)
    moreover from True False have "ToLower uni (sch @ rest) = sch @ rest"
      by (simp only: ToLower_def if_True if_False)
    ultimately show ?thesis unfolding HasPrefix_append by simp
  qed
next
  case False
  then have "ToLower uni (sch @ rest) = Map_ToLower uni (sch @ rest)"
    by (simp only: ToLower_def if_False)
  also have "\<dots> = awsPrefix @ Map_ToLower uni rest"
    using Map_ToLower_append[OF schemeSpelling_ascii[OF assms]] assms
    by (simp add: schemeSpelling_def)
  finally show ?thesis unfolding HasPrefix_append by blast
qed

lemma other_spelling_not_trimmed:
  assumes "keyURIPrefix c = sch @ rest" "schemeSpelling sch" "sch \<noteq> awsPrefix" "Supported c s"
  shows "TrimPrefix s awsPrefix = s"
proof -
  from assms(1,4) obtain t where s: "s = sch @ rest @ t"
    unfolding Supported_def HasPrefix_append by auto
  have "\<not> HasPrefix s awsPrefix"
  proof
    assume "HasPrefix s awsPrefix"
    then obtain u where "sch @ rest @ t = awsPrefix @ u" unfolding HasPrefix_append s by blast
    with schemeSpelling_length[OF assms(2)] have "sch = awsPrefix" by simp
    with assms(3) show False by simp
  qed
  then show ?thesis by (rule TrimPrefix_other)
qed

lemma legacy_region_failure_iff:
  assumes "Supported c s" "builder c = LegacyBuilder" "kms c = None"
  shows "GetAEAD E c s = (Inl (ErrBuildingAEAD ErrRegion), c) \<longleftrightarrow>
           getRegion (keyURIPrefix c) = Inl ErrRegion"
proof (cases "getRegion (keyURIPrefix c)")
  case (Inl err)
  then have e: "getRegion (keyURIPrefix c) = Inl ErrRegion" using getRegion_Inl by blast
  then have "getKMS E (keyURIPrefix c) = Inl ErrRegion" by (simp add: getKMS_def)
  with assms have "GetAEAD E c s = (Inl (ErrBuildingAEAD ErrRegion), c)"
    by (simp add: GetAEAD_supported call_builder_legacy legacyBuilder_def)
  with e show ?thesis by simp
next
  case (Inr r)
  show ?thesis
  proof (cases "NewSession E \<lparr>Credentials = None, Region = r\<rparr>")
    case (Inl err)
    then obtain msg where "err = ErrSession msg"
      by (auto simp: NewSession_def split: option.splits)
    with Inl Inr have "getKMS E (keyURIPrefix c) = Inl (ErrSession msg)" by (simp add: getKMS_def)
    with assms have "GetAEAD E c s = (Inl (ErrBuildingAEAD (ErrSession msg)), c)"
      by (simp add: GetAEAD_supported call_builder_legacy legacyBuilder_def)
    with Inr show ?thesis by simp
  next
    case sess: (Inr se)
    with Inr have "getKMS E (keyURIPrefix c) = Inr (KMS_New se)" by (simp add: getKMS_def)
    with assms have "fst (GetAEAD E c s) = Inr (newAWSAEAD (TrimPrefix s awsPrefix) (KMS_New se) (encryptionContextName c))"
      by (simp add: GetAEAD_supported call_builder_legacy legacyBuilder_def)
    with Inr show ?thesis by auto
  qed
qed

text \<open>
  Claim C10 says that for every client whose prefix spells the scheme in another case
  the legacy region parser fails. The parser searches the configured prefix for the
  lower-case pattern anywhere in it; a prefix with an upper-case scheme in front of
  the lower-case pattern is accepted, its region is found and the adapter is made.
\<close>

theorem lowercase_inside_prefix_counterexample:
  "schemeSpelling ''AWS-KMS://'' \<and> ''AWS-KMS://'' \<noteq> awsPrefix
   \<and> NewClientWithOptions testEnv (''AWS-KMS://'' @ ''aws-kms://arn:aws:kms:us-east-2:'') []
       = Inr \<lparr>keyURIPrefix = ''AWS-KMS://aws-kms://arn:aws:kms:us-east-2:'', kms = None,
              encryptionContextName = AssociatedData, builder = LegacyBuilder\<rparr>
   \<and> Supported \<lparr>keyURIPrefix = ''AWS-KMS://aws-kms://arn:aws:kms:us-east-2:'', kms = None,
              encryptionContextName = AssociatedData, builder = LegacyBuilder\<rparr>
         ''AWS-KMS://aws-kms://arn:aws:kms:us-east-2:key/1''
   \<and> getRegion ''AWS-KMS://aws-kms://arn:aws:kms:us-east-2:'' = Inr ''us-east-2''
   \<and> GetAEAD testEnv
         \<lparr>keyURIPrefix = ''AWS-KMS://aws-kms://arn:aws:kms:us-east-2:'', kms = None,
              encryptionContextName = AssociatedData, builder = LegacyBuilder\<rparr>
         ''AWS-KMS://aws-kms://arn:aws:kms:us-east-2:key/1''
       = (Inr (AWSAEAD ''AWS-KMS://aws-kms://arn:aws:kms:us-east-2:key/1''
                 (KMS_New (Session \<lparr>Credentials = None, Region = ''us-east-2''\<rparr>)) AssociatedData),
          \<lparr>keyURIPrefix = ''AWS-KMS://aws-kms://arn:aws:kms:us-east-2:'',
            kms = Some (KMS_New (Session \<lparr>Credentials = None, Region = ''us-east-2''\<rparr>)),
            encryptionContextName = AssociatedData, builder = LegacyBuilder\<rparr>)"
  by code_simp

text \<open>
  Claim C10, amended. \<open>NewClientWithOptions\<close> accepts a prefix that starts with the
  scheme in any letter case. \<open>GetAEAD\<close> removes the lower-case \<open>aws-kms://\<close> from the
  front of a key URI and leaves a key URI that does not start with it as it is; so for
  a client whose prefix spells the scheme in another case, a supported key URI reaches
  the closure with the scheme on it. When the legacy closure has to make the handle,
  the call fails with the region error exactly when the pattern of \<open>getRegion\<close> occurs
  nowhere in the configured prefix, and so whenever the lower-case \<open>aws-kms://\<close> occurs
  nowhere in it.
\<close>

theorem scheme_case_mismatch:
  "(schemeSpelling sch \<longrightarrow>
      NewClientWithOptions E (sch @ rest) [] =
        Inr ((new_awsClient (sch @ rest))\<lparr>encryptionContextName := AssociatedData\<rparr>))
   \<and> TrimPrefix (awsPrefix @ rest) awsPrefix = rest
   \<and> (\<not> HasPrefix s awsPrefix \<longrightarrow> TrimPrefix s awsPrefix = s)
   \<and> (keyURIPrefix c = sch @ rest \<and> schemeSpelling sch \<and> sch \<noteq> awsPrefix \<and> Supported c s \<longrightarrow>
        GetAEAD E c s =
          (case call_builder E c s (encryptionContextName c) of
             (Inl err, c') \<Rightarrow> (Inl (ErrBuildingAEAD err), c')
           | (Inr aead, c') \<Rightarrow> (Inr aead, c')))
   \<and> (Supported c s \<and> builder c = LegacyBuilder \<and> kms c = None \<longrightarrow>
        (GetAEAD E c s = (Inl (ErrBuildingAEAD ErrRegion), c) \<longleftrightarrow>
           (\<nexists>pre t p r. keyURIPrefix c = pre @ t \<and> grammarAt t p r)))
   \<and> (Supported c s \<and> builder c = LegacyBuilder \<and> kms c = None \<and>
       (\<nexists>a b. keyURIPrefix c = a @ awsPrefix @ b) \<longrightarrow>
        GetAEAD E c s = (Inl (ErrBuildingAEAD ErrRegion), c))"
proof (intro conjI impI)
  assume "schemeSpelling sch"
  then have "HasPrefix (ToLower (unicode_ToLower E) (sch @ rest)) awsPrefix"
    by (rule ToLower_scheme)
  then show "NewClientWithOptions E (sch @ rest) [] =
        Inr ((new_awsClient (sch @ rest))\<lparr>encryptionContextName := AssociatedData\<rparr>)"
    by (simp add: NewClientWithOptions_def new_awsClient_def)
next
  show "TrimPrefix (awsPrefix @ rest) awsPrefix = rest" by (rule TrimPrefix_append)
next
  assume "\<not> HasPrefix s awsPrefix"
  then show "TrimPrefix s awsPrefix = s" by (rule TrimPrefix_other)
next
  assume a: "keyURIPrefix c = sch @ rest \<and> schemeSpelling sch \<and> sch \<noteq> awsPrefix \<and> Supported c s"
  then have "TrimPrefix s awsPrefix = s" using other_spelling_not_trimmed by blast
  with a show "GetAEAD E c s =
          (case call_builder E c s (encryptionContextName c) of
             (Inl err, c') \<Rightarrow> (Inl (ErrBuildingAEAD err), c')
           | (Inr aead, c') \<Rightarrow> (Inr aead, c'))"
    by (simp add: GetAEAD_supported)
next
  assume a: "Supported c s \<and> builder c = LegacyBuilder \<and> kms c = None"
  then have "GetAEAD E c s = (Inl (ErrBuildingAEAD ErrRegion), c) \<longleftrightarrow>
           getRegion (keyURIPrefix c) = Inl ErrRegion"
    using legacy_region_failure_iff by blast
  then show "GetAEAD E c s = (Inl (ErrBuildingAEAD ErrRegion), c) \<longleftrightarrow>
           (\<nexists>pre t p r. keyURIPrefix c = pre @ t \<and> grammarAt t p r)"
    unfolding getRegion_fails_iff by blast
next
  assume a: "Supported c s \<and> builder c = LegacyBuilder \<and> kms c = None \<and>
       (\<nexists>a b. keyURIPrefix c = a @ awsPrefix @ b)"
  have "\<not> grammarAt t p r" if "keyURIPrefix c = pre @ t" for pre t p r
  proof
    assume "grammarAt t p r"
    then obtain b where "t = awsPrefix @ ''arn:'' @ b"
      using grammarAt_arn unfolding awsPrefix_def by blast
    with that have "keyURIPrefix c = pre @ awsPrefix @ (''arn:'' @ b)" by simp
    with a show False by blast
  qed
  then have "getRegion (keyURIPrefix c) = Inl ErrRegion"
    unfolding getRegion_fails_iff by blast
  with a show "GetAEAD E c s = (Inl (ErrBuildingAEAD ErrRegion), c)"
    using legacy_region_failure_iff by blast
qed

theorem scheme_case_mismatch_witness:
  "schemeSpelling ''AWS-KMS://'' \<and> ''AWS-KMS://'' \<noteq> awsPrefix
   \<and> NewClientWithOptions testEnv (''AWS-KMS://'' @ ''arn:aws:kms:us-east-2:'') []
       = Inr ((new_awsClient (''AWS-KMS://'' @ ''arn:aws:kms:us-east-2:''))
                \<lparr>encryptionContextName := AssociatedData\<rparr>)
   \<and> Supported ((new_awsClient (''AWS-KMS://'' @ ''arn:aws:kms:us-east-2:''))
                \<lparr>encryptionContextName := AssociatedData\<rparr>)
        ''AWS-KMS://arn:aws:kms:us-east-2:key/1''
   \<and> (\<nexists>a b. ''AWS-KMS://arn:aws:kms:us-east-2:'' = a @ awsPrefix @ b)
   \<and> GetAEAD testEnv ((new_awsClient (''AWS-KMS://'' @ ''arn:aws:kms:us-east-2:''))
                \<lparr>encryptionContextName := AssociatedData\<rparr>)
        ''AWS-KMS://arn:aws:kms:us-east-2:key/1''
       = (Inl (ErrBuildingAEAD ErrRegion),
          (new_awsClient (''AWS-KMS://'' @ ''arn:aws:kms:us-east-2:''))
                \<lparr>encryptionContextName := AssociatedData\<rparr>)"
proof -
  let ?c = "(new_awsClient (''AWS-KMS://'' @ ''arn:aws:kms:us-east-2:''))
                \<lparr>encryptionContextName := AssociatedData\<rparr>"
  have 1: "schemeSpelling ''AWS-KMS://''" by code_simp
  have 2: "''AWS-KMS://'' \<noteq> awsPrefix" by (simp add: awsPrefix_def)
  have 3: "Supported ?c ''AWS-KMS://arn:aws:kms:us-east-2:key/1''"
    by (simp add: Supported_def HasPrefix_def new_awsClient_def)
  have 4: "\<nexists>a b. ''AWS-KMS://arn:aws:kms:us-east-2:'' = a @ awsPrefix @ b"
    by (simp add: Cons_eq_append_conv awsPrefix_def)
  have 5: "builder ?c = LegacyBuilder \<and> kms ?c = None \<and>
           keyURIPrefix ?c = ''AWS-KMS://arn:aws:kms:us-east-2:''"
    by (simp add: new_awsClient_def)
  from scheme_case_mismatch[where sch = "''AWS-KMS://''" and rest = "''arn:aws:kms:us-east-2:''"
                              and E = testEnv] 1
  have 6: "NewClientWithOptions testEnv (''AWS-KMS://'' @ ''arn:aws:kms:us-east-2:'') [] = Inr ?c"
    by blast
  have "Supported ?c ''AWS-KMS://arn:aws:kms:us-east-2:key/1'' \<and> builder ?c = LegacyBuilder \<and>
        kms ?c = None \<and> (\<nexists>a b. keyURIPrefix ?c = a @ awsPrefix @ b)"
    using 3 4 5 by simp
  with scheme_case_mismatch[where c = ?c and s = "''AWS-KMS://arn:aws:kms:us-east-2:key/1''"
                              and E = testEnv]
  have 7: "GetAEAD testEnv ?c ''AWS-KMS://arn:aws:kms:us-east-2:key/1''
             = (Inl (ErrBuildingAEAD ErrRegion), ?c)"
    by blast
  show ?thesis by (intro conjI 1 2 6 3 4 7)
qed

end
